theory Spec2Isabelle
  imports Main "HOL-Library.Sublist" "HOL-Library.Word"
begin

text \<open>
  A model of the class \<open>Templatar\<close> of \<open>src/index.js\<close>, lines 1 to 63. The file
  holds a second copy of the class (lines 64 to 118), which differs from the first in
  one place: it has no lines 49 to 56, and hands the resolved value to the transform
  hook as it is. The model follows the first copy. The built-ins of JavaScript that
  the class calls (\<open>typeof\<close>, \<open>String\<close>, \<open>split\<close>, \<open>trim\<close>, \<open>RegExp\<close>,
  \<open>replace\<close> on strings) are modelled after the language's definition.
\<close>

section \<open>JavaScript values\<close>

text \<open>
  The values that \<open>replace\<close> of \<open>src/index.js\<close> can meet in its arguments and inside
  \<open>data\<close>: \<open>undefined\<close>, \<open>null\<close>, booleans, numbers, strings, arrays and plain objects.
  A string is a list of code units; only the code units below 256 are represented
  (\<open>char\<close>). A plain object is the list of its own properties in insertion order.

  Numbers: \<open>JNum i\<close> stands for the integer \<open>sint i\<close>, with \<open>- 2 ^ 53 \<le> sint i\<close> and
  \<open>sint i < 2 ^ 53\<close>. Every such integer is a number of JavaScript (a double holds it
  exactly), and no other integer is admitted. \<open>NaN\<close> and the two infinities have
  constructors of their own. The numbers with a fractional part, the integers beyond
  that range and the negative zero are not represented: their text is the shortest
  decimal that reads back as the same double, which is a matter of floating-point
  arithmetic. The class does no arithmetic on numbers.
\<close>

datatype jsval =
    JUndefined
  | JNull
  | JBool bool
  | JNum "54 word"
  | JNaN
  | JInfinity
  | JNegInfinity
  | JStr string
  | JArr "jsval list"
  | JObj "(string \<times> jsval) list"

text \<open>The \<open>typeof\<close> operator.\<close>

fun typeof :: "jsval \<Rightarrow> string" where
  "typeof JUndefined = ''undefined''"
| "typeof JNull = ''object''"
| "typeof (JBool b) = ''boolean''"
| "typeof (JNum n) = ''number''"
| "typeof JNaN = ''number''"
| "typeof JInfinity = ''number''"
| "typeof JNegInfinity = ''number''"
| "typeof (JStr s) = ''string''"
| "typeof (JArr xs) = ''object''"
| "typeof (JObj kvs) = ''object''"

text \<open>Truthiness, as \<open>||\<close> and \<open>!\<close> test it.\<close>

fun truthy :: "jsval \<Rightarrow> bool" where
  "truthy JUndefined = False"
| "truthy JNull = False"
| "truthy (JBool b) = b"
| "truthy (JNum n) = (n \<noteq> 0)"
| "truthy JNaN = False"
| "truthy JInfinity = True"
| "truthy JNegInfinity = True"
| "truthy (JStr s) = (s \<noteq> [])"
| "truthy (JArr xs) = True"
| "truthy (JObj kvs) = True"

subsection \<open>Conversion to text\<close>

fun digits :: "nat \<Rightarrow> string" where
  "digits n =
     (if n < 10 then [''0123456789'' ! n]
      else digits (n div 10) @ [''0123456789'' ! (n mod 10)])"

declare digits.simps [simp del]

text \<open>
  \<open>Number::toString\<close> on the integers represented: they are all below \<open>10 ^ 21\<close> in
  magnitude, where the text of an integer is its decimal numeral, with a minus sign
  when it is negative.
\<close>

definition Number_toString :: "54 word \<Rightarrow> string" where
  "Number_toString w =
     (let i = sint w in if i < 0 then CHR ''-'' # digits (nat (- i)) else digits (nat i))"

text \<open>\<open>Array.prototype.join\<close> on an array of strings.\<close>

fun join :: "string \<Rightarrow> string list \<Rightarrow> string" where
  "join sep [] = []"
| "join sep [x] = x"
| "join sep (x # y # ys) = x @ sep @ join sep (y # ys)"

text \<open>
  \<open>String(v)\<close>: the canonical text of a scalar; an array is its elements joined by
  commas (with \<open>null\<close> and \<open>undefined\<close> elements empty), a plain object is
  \<open>[object Object]\<close>.
\<close>

fun js_String :: "jsval \<Rightarrow> string" where
  "js_String JUndefined = ''undefined''"
| "js_String JNull = ''null''"
| "js_String (JBool b) = (if b then ''true'' else ''false'')"
| "js_String (JNum n) = Number_toString n"
| "js_String JNaN = ''NaN''"
| "js_String JInfinity = ''Infinity''"
| "js_String JNegInfinity = ''-Infinity''"
| "js_String (JStr s) = s"
| "js_String (JArr xs) =
     join '','' (map (\<lambda>v. case v of JUndefined \<Rightarrow> [] | JNull \<Rightarrow> [] | _ \<Rightarrow> js_String v) xs)"
| "js_String (JObj kvs) = ''[object Object]''"

text \<open>
  Modelled from the spec: \<open>util.inspect(value, {depth})\<close> is a built-in of the Node.js
  runtime and not part of \<open>src/\<close>. The spec asks for a deterministic dump that reflects
  the nested structure up to a bounded depth. \<open>formatValue depth lvl v\<close> prints \<open>v\<close>
  found at nesting level \<open>lvl\<close>: scalars in their canonical text, strings in single
  quotes, an array as \<open>[ e, ... ]\<close>, an object as \<open>{ k: v, ... }\<close>, and a non-empty
  array or object nested deeper than \<open>depth\<close> as \<open>[Array]\<close> or \<open>[Object]\<close>. The line
  breaking of long output and the escaping of quotes are not modelled.
\<close>

fun formatValue :: "nat \<Rightarrow> nat \<Rightarrow> jsval \<Rightarrow> string" where
  "formatValue depth lvl JUndefined = ''undefined''"
| "formatValue depth lvl JNull = ''null''"
| "formatValue depth lvl (JBool b) = (if b then ''true'' else ''false'')"
| "formatValue depth lvl (JNum n) = Number_toString n"
| "formatValue depth lvl JNaN = ''NaN''"
| "formatValue depth lvl JInfinity = ''Infinity''"
| "formatValue depth lvl JNegInfinity = ''-Infinity''"
| "formatValue depth lvl (JStr s) = CHR 0x27 # s @ [CHR 0x27]"
| "formatValue depth lvl (JArr xs) =
     (if xs = [] then ''[]''
      else if depth < lvl then ''[Array]''
      else ''[ '' @ join '', '' (map (formatValue depth (Suc lvl)) xs) @ '' ]'')"
| "formatValue depth lvl (JObj kvs) =
     (if kvs = [] then ''{}''
      else if depth < lvl then ''[Object]''
      else ''{ '' @ join '', ''
             (map (\<lambda>(k, v). k @ '': '' @ formatValue depth (Suc lvl) v) kvs) @ '' }'')"

definition inspect :: "jsval \<Rightarrow> nat \<Rightarrow> string" where
  "inspect v depth = formatValue depth 0 v"

section \<open>String methods\<close>

text \<open>
  \<open>String.prototype.split(sep)\<close> without a limit: the string is cut at every
  occurrence of the separator, scanning from the left; an empty separator cuts
  between all code units.
\<close>

function String_split :: "string \<Rightarrow> string \<Rightarrow> string list" where
  "String_split sep s =
     (if sep = [] then map (\<lambda>c. [c]) s
      else case s of
             [] \<Rightarrow> [[]]
           | x # xs \<Rightarrow>
               if prefix sep s then [] # String_split sep (drop (length sep) s)
               else (case String_split sep xs of
                       [] \<Rightarrow> [[x]]
                     | p # ps \<Rightarrow> (x # p) # ps))"
  by pat_completeness auto
termination
  by (relation "measure (\<lambda>(sep, s). length s)") auto

declare String_split.simps [simp del]

text \<open>
  \<open>String.prototype.trim\<close>: white space and line terminators are removed from both
  ends (tab, line feed, vertical tab, form feed, carriage return, space, no-break
  space, among the code units represented).
\<close>

definition is_space :: "char \<Rightarrow> bool" where
  "is_space c \<longleftrightarrow> c \<in> set [CHR 0x09, CHR 0x0A, CHR 0x0B, CHR 0x0C, CHR 0x0D, CHR 0x20, CHR 0xA0]"

definition String_trim :: "string \<Rightarrow> string" where
  "String_trim s = rev (dropWhile is_space (rev (dropWhile is_space s)))"

section \<open>The placeholder pattern\<close>

text \<open>
  Lines 31 and 32 of \<open>src/index.js\<close> escape the two delimiters with
  \<open>.replace(/[.*+?^${}()|[\]\\]/g, '\\$&')\<close>: every character of the class is
  prefixed with a backslash, every other character is kept.
\<close>

definition backslash :: char where
  "backslash = CHR 0x5C"

definition escape_class :: "char \<Rightarrow> bool" where
  "escape_class c \<longleftrightarrow> c \<in> set ''.*+?^${}()|[]'' \<or> c = backslash"

fun escape :: "string \<Rightarrow> string" where
  "escape [] = []"
| "escape (c # cs) =
     (if escape_class c then backslash # c # escape cs else c # escape cs)"

text \<open>
  The text of the capture group of line 33, \<open>([\w\W]+?)\<close>: one or more code units
  of any kind (a word character or a non-word character), as few as possible.
\<close>

definition group_src :: string where
  "group_src = ''(['' @ [backslash] @ ''w'' @ [backslash] @ ''W]+?)''"


subsection \<open>Regular expressions\<close>

text \<open>
  The regular expressions that line 33 can build are sequences of two kinds of
  term: a literal code unit, and the capture group above. \<open>RegExp\<close> reads a pattern
  text as the constructor of JavaScript does, for this fragment of the pattern
  grammar: a character that is not a syntax character stands for itself, a backslash
  followed by a syntax character stands for that character, and the text of the
  group stands for the group. The syntax characters are those of the ECMAScript
  grammar. Any other pattern text is outside the fragment, and the result is \<open>None\<close>.
\<close>

datatype atom = Lit char | CaptureAny

type_synonym regex = "atom list"

definition SyntaxCharacter :: "char \<Rightarrow> bool" where
  "SyntaxCharacter c \<longleftrightarrow> c \<in> set ''^$.*+?()[]{}|'' \<or> c = backslash"

function RegExp :: "string \<Rightarrow> regex option" where
  "RegExp [] = Some []"
| "RegExp (c # cs) =
     (if prefix group_src (c # cs)
        then map_option (Cons CaptureAny) (RegExp (drop (length group_src) (c # cs)))
      else if c = backslash
        then (case cs of
                [] \<Rightarrow> None
              | d # ds \<Rightarrow> if SyntaxCharacter d then map_option (Cons (Lit d)) (RegExp ds) else None)
      else if SyntaxCharacter c then None
      else map_option (Cons (Lit c)) (RegExp cs))"
  by pat_completeness auto
termination
  by (relation "measure length") (auto simp: group_src_def)

declare RegExp.simps [simp del]

text \<open>
  Matching at the start of a string, by backtracking. The result is the text captured
  by the first group (if the expression has one) and the rest of the string after the
  match. The group is lazy: it takes one code unit and tries the rest of the
  expression, and takes one more code unit only when that fails.
\<close>

fun match_here :: "regex \<Rightarrow> string \<Rightarrow> (string option \<times> string) option" where
  "match_here [] s = Some (None, s)"
| "match_here (Lit c # r) [] = None"
| "match_here (Lit c # r) (x # xs) = (if x = c then match_here r xs else None)"
| "match_here (CaptureAny # r) [] = None"
| "match_here (CaptureAny # r) (x # xs) =
     (case match_here r xs of
        Some (later, rest) \<Rightarrow> Some (Some [x], rest)
      | None \<Rightarrow>
          (case match_here (CaptureAny # r) xs of
             Some (Some inner, rest) \<Rightarrow> Some (Some (x # inner), rest)
           | _ \<Rightarrow> None))"

text \<open>
  \<open>exec\<close>: the leftmost match in \<open>s\<close>. The result is the text before the match, the
  matched text, the capture and the text after the match.
\<close>

fun exec :: "regex \<Rightarrow> string \<Rightarrow> (string \<times> string \<times> string option \<times> string) option" where
  "exec r [] =
     (case match_here r [] of
        Some (cap, rest) \<Rightarrow> Some ([], [], cap, rest)
      | None \<Rightarrow> None)"
| "exec r (x # xs) =
     (case match_here r (x # xs) of
        Some (cap, rest) \<Rightarrow> Some ([], take (length (x # xs) - length rest) (x # xs), cap, rest)
      | None \<Rightarrow> map_option (\<lambda>(pre, m, cap, rest). (x # pre, m, cap, rest)) (exec r xs))"

lemma match_here_suffix:
  "match_here r s = Some (cap, rest) \<Longrightarrow> suffix rest s"
proof (induction r s arbitrary: cap rest rule: match_here.induct)
  case (1 s)
  then show ?case by simp
next
  case (3 c r x xs)
  then show ?case by (auto split: if_splits intro: suffix_ConsI)
next
  case (5 r x xs)
  show ?case
  proof (cases "match_here r xs")
    case (Some p)
    with 5 show ?thesis by (cases p) (auto intro: suffix_ConsI)
  next
    case None
    with 5 show ?thesis by (auto split: option.splits intro: suffix_ConsI)
  qed
qed simp_all

lemma exec_decomp:
  "exec r s = Some (pre, m, cap, rest) \<Longrightarrow> s = pre @ m @ rest"
proof (induction s arbitrary: pre)
  case Nil
  then show ?case by (auto split: option.splits dest: match_here_suffix)
next
  case (Cons x xs)
  show ?case
  proof (cases "match_here r (x # xs)")
    case None
    with Cons show ?thesis by auto
  next
    case (Some p)
    obtain c rs where p: "p = (c, rs)" by (cases p)
    from match_here_suffix Some p obtain m' where m': "x # xs = m' @ rs"
      unfolding suffix_def by blast
    from Cons.prems Some p
    have "pre = []" "m = take (length (x # xs) - length rs) (x # xs)" "rest = rs"
      by auto
    with m' show ?thesis
      by (metis append_Nil append_eq_conv_conj diff_add_inverse2 length_append)
  qed
qed

section \<open>Global replacement with a replacer function\<close>

text \<open>
  \<open>template.replace(pattern, f)\<close> with a global pattern first collects the matches
  from left to right, each search starting where the previous match ended (one code
  unit further after an empty match), and then calls \<open>f\<close> on the matches in that
  order; the text between the matches is copied. \<open>scan\<close> cuts the string into the
  copied pieces and the matched spans, a span with its matched text and its capture.
\<close>

datatype piece = Text string | Span string "string option"

function scan :: "regex \<Rightarrow> string \<Rightarrow> piece list" where
  "scan r s =
     (case exec r s of
        None \<Rightarrow> [Text s]
      | Some (pre, m, cap, rest) \<Rightarrow>
          Text pre # Span m cap #
            (if m = [] then (case rest of [] \<Rightarrow> [] | x # xs \<Rightarrow> Text [x] # scan r xs)
             else scan r rest))"
  by pat_completeness auto
termination
  by (relation "measure (\<lambda>(r, s). length s)") (auto dest!: exec_decomp)

declare scan.simps [simp del]

datatype error =
    InvalidTemplateType
  | InvalidDataType
  | MissingKey string
  | Thrown jsval
  | TypeError
  | SyntaxError

text \<open>
  The first three errors are those that \<open>src/index.js\<close> throws itself, with the
  messages below. \<open>Thrown x\<close> is the exception of a transform hook that throws \<open>x\<close>;
  \<open>replace\<close> does not catch it.
\<close>

fun message :: "error \<Rightarrow> string" where
  "message InvalidTemplateType = ''Template must be a string''"
| "message InvalidDataType = ''Data must be an object''"
| "message (MissingKey k) =
     ''Key '' @ [CHR 0x22] @ k @ [CHR 0x22] @ '' is not found and ignoreMissing is false''"
| "message (Thrown x) = js_String x"
| "message TypeError = ''TypeError''"
| "message SyntaxError = ''SyntaxError''"

text \<open>
  The replacer is called on the spans from left to right; an exception of the replacer
  ends the call, so the first span whose replacer fails decides the result.
\<close>

fun replace_pieces :: "(string \<Rightarrow> string option \<Rightarrow> error + string) \<Rightarrow> piece list \<Rightarrow> error + string" where
  "replace_pieces f [] = Inr []"
| "replace_pieces f (Text t # ps) =
     (case replace_pieces f ps of Inl e \<Rightarrow> Inl e | Inr out \<Rightarrow> Inr (t @ out))"
| "replace_pieces f (Span m cap # ps) =
     (case f m cap of
        Inl e \<Rightarrow> Inl e
      | Inr r \<Rightarrow> (case replace_pieces f ps of Inl e \<Rightarrow> Inl e | Inr out \<Rightarrow> Inr (r @ out)))"

definition String_replace :: "regex \<Rightarrow> (string \<Rightarrow> string option \<Rightarrow> error + string) \<Rightarrow> string \<Rightarrow> error + string" where
  "String_replace pattern f s = replace_pieces f (scan pattern s)"

section \<open>The class Templatar\<close>

text \<open>The object that the transform hook receives (line 58).\<close>

record transform_arg =
  arg_value :: jsval
  arg_defaultVal :: jsval
  arg_key :: string

text \<open>
  A transform hook is a function of the caller: a call of it returns a value or throws
  one.
\<close>

datatype hook_result = Returns jsval | Throws jsval

text \<open>The fields of an instance, and the options of the constructor (lines 12 to 19).\<close>

record config =
  starting :: string
  closing :: string
  ignoreMissing :: bool
  transform :: "transform_arg \<Rightarrow> hook_result"

record delimiter_options =
  opt_starting :: "string option"
  opt_closing :: "string option"

record options =
  opt_delimiters :: "delimiter_options option"
  opt_ignoreMissing :: "bool option"
  opt_transform :: "(transform_arg \<Rightarrow> hook_result) option"

text \<open>
  \<open>options.delimiters?.starting || '<{'\<close>: the default is taken when the option is
  absent and also when it is the empty string, which is falsy.
\<close>

definition or_default :: "string option \<Rightarrow> string \<Rightarrow> string" where
  "or_default v d = (case v of None \<Rightarrow> d | Some s \<Rightarrow> if s = [] then d else s)"

definition Templatar :: "options \<Rightarrow> config" where
  "Templatar opts =
     \<lparr>starting = or_default (case opt_delimiters opts of None \<Rightarrow> None | Some d \<Rightarrow> opt_starting d) ''<{'',
      closing = or_default (case opt_delimiters opts of None \<Rightarrow> None | Some d \<Rightarrow> opt_closing d) ''}>'',
      ignoreMissing = (case opt_ignoreMissing opts of None \<Rightarrow> False | Some b \<Rightarrow> b),
      transform =
        (case opt_transform opts of None \<Rightarrow> (\<lambda>data. Returns (arg_value data)) | Some f \<Rightarrow> f)\<rparr>"

definition no_options :: options where
  "no_options = \<lparr>opt_delimiters = None, opt_ignoreMissing = None, opt_transform = None\<rparr>"

text \<open>Lines 30 to 33: the pattern of an instance, compiled from its delimiters.\<close>

definition pattern :: "config \<Rightarrow> regex option" where
  "pattern cfg =
     (let escapedStart = escape (starting cfg);
          escapedEnd = escape (closing cfg)
      in RegExp (escapedStart @ group_src @ escapedEnd))"

subsection \<open>Key lookup\<close>

text \<open>
  Modelled from the spec: \<open>getProperty\<close> is imported from the package \<open>dot-prop\<close>,
  whose source is not part of \<open>src/\<close>. The spec gives its contract: resolve a dotted
  path against a nested structure, and return the caller's fallback, as it is, when
  the path does not resolve to a defined value. The path is cut at its dots and the
  segments are followed through nested objects; a segment that meets a missing
  property, or a value that is not an object, resolves to nothing. Escaped dots and
  array indices are not modelled.
\<close>

fun resolve_path :: "string list \<Rightarrow> jsval \<Rightarrow> jsval" where
  "resolve_path [] v = v"
| "resolve_path (k # ks) v =
     (case v of
        JObj kvs \<Rightarrow> (case map_of kvs k of None \<Rightarrow> JUndefined | Some w \<Rightarrow> resolve_path ks w)
      | _ \<Rightarrow> JUndefined)"

definition getProperty :: "jsval \<Rightarrow> string \<Rightarrow> jsval \<Rightarrow> jsval" where
  "getProperty object path fallback =
     (case resolve_path (String_split ''.'' path) object of
        JUndefined \<Rightarrow> fallback
      | v \<Rightarrow> v)"

subsection \<open>The replacer of one placeholder (lines 35 to 59)\<close>

text \<open>Lines 49 to 56: the value is made a string before the transform hook sees it.\<close>

definition normalize_value :: "jsval \<Rightarrow> jsval" where
  "normalize_value v =
     (if typeof v = ''object'' then JStr (inspect v 4)
      else if typeof v \<noteq> ''string'' then JStr (js_String v)
      else v)"

text \<open>
  Line 58, \<open>return String(this.transform({...}))\<close>: the value that the hook returns is
  converted to a string; an exception of the hook leaves the replacer.
\<close>

definition String_of_result :: "hook_result \<Rightarrow> error + string" where
  "String_of_result h = (case h of Throws x \<Rightarrow> Inl (Thrown x) | Returns v \<Rightarrow> Inr (js_String v))"

text \<open>
  \<open>const [key, defaultVal] = keyStr.split('||')\<close> takes the first two parts of the
  split; \<open>defaultVal\<close> is \<open>undefined\<close> when there is one part only. The matched text
  \<open>match\<close> is not used by the replacer.
\<close>

definition placeholder :: "config \<Rightarrow> jsval \<Rightarrow> string \<Rightarrow> string option \<Rightarrow> error + string" where
  "placeholder cfg data match keyStr =
     (case keyStr of
        None \<Rightarrow> Inl TypeError
      | Some ks \<Rightarrow>
          (case String_split ''||'' ks of
             [] \<Rightarrow> Inl TypeError
           | key # others \<Rightarrow>
               let defaultVal = (case others of [] \<Rightarrow> JUndefined | d # ds \<Rightarrow> JStr d);
                   trimmedKey = String_trim key;
                   v = getProperty data trimmedKey defaultVal
               in if v = JUndefined \<and> \<not> ignoreMissing cfg then Inl (MissingKey trimmedKey)
                  else String_of_result (transform cfg
                         \<lparr>arg_value = normalize_value v, arg_defaultVal = defaultVal,
                          arg_key = trimmedKey\<rparr>)))"

subsection \<open>replace (lines 21 to 60)\<close>

definition replace :: "config \<Rightarrow> jsval \<Rightarrow> jsval \<Rightarrow> error + string" where
  "replace cfg template data =
     (if typeof template \<noteq> ''string'' then Inl InvalidTemplateType
      else if typeof data \<noteq> ''object'' \<or> data = JNull then Inl InvalidDataType
      else (case template of
              JStr t \<Rightarrow>
                (case pattern cfg of
                   None \<Rightarrow> Inl SyntaxError
                 | Some r \<Rightarrow> String_replace r (placeholder cfg data) t)
            | _ \<Rightarrow> Inl InvalidTemplateType))"

section \<open>The matcher in the words of the specification\<close>

text \<open>
  The specification describes a placeholder without regular expressions: the starting
  delimiter as literal text, then an inner text of at least one code unit, then the
  closing delimiter as literal text. \<open>find_closing C s\<close> looks for the first occurrence
  of \<open>C\<close> that leaves a non-empty inner text in front of it; \<open>literal_exec\<close> looks for
  the leftmost position where the starting delimiter stands and a closing delimiter
  follows in this way. These two definitions are compared with the compiled pattern
  below; \<open>replace\<close> does not use them.
\<close>

fun find_closing :: "string \<Rightarrow> string \<Rightarrow> (string \<times> string) option" where
  "find_closing C [] = None"
| "find_closing C (x # xs) =
     (if prefix C xs then Some ([x], drop (length C) xs)
      else map_option (\<lambda>(inner, rest). (x # inner, rest)) (find_closing C xs))"

fun literal_exec :: "string \<Rightarrow> string \<Rightarrow> string \<Rightarrow> (string \<times> string \<times> string option \<times> string) option" where
  "literal_exec S C [] = None"
| "literal_exec S C (x # xs) =
     (case (if prefix S (x # xs) then find_closing C (drop (length S) (x # xs)) else None) of
        Some (inner, rest) \<Rightarrow> Some ([], S @ inner @ C, Some inner, rest)
      | None \<Rightarrow> map_option (\<lambda>(pre, m, cap, rest). (x # pre, m, cap, rest)) (literal_exec S C xs))"


section \<open>Vocabulary of the claims\<close>

text \<open>
  An associative structure, as the specification calls the argument \<open>data\<close>: a plain
  object or an array (JavaScript arrays are objects whose keys are the indices).
\<close>

definition associative :: "jsval \<Rightarrow> bool" where
  "associative v = (case v of JObj kvs \<Rightarrow> True | JArr xs \<Rightarrow> True | _ \<Rightarrow> False)"


text \<open>Instances used as examples: the defaults, and delimiters made of metacharacters.\<close>

definition defaults :: config where
  "defaults = Templatar no_options"

definition brackets :: config where
  "brackets = Templatar \<lparr>opt_delimiters = Some \<lparr>opt_starting = Some ''[['', opt_closing = Some '']]''\<rparr>,
     opt_ignoreMissing = None, opt_transform = None\<rparr>"


text \<open>
  The parts of a placeholder, as the replacer reads them: the key is the first part of
  the split of the inner text, trimmed; a default is present when the split has more
  than one part; a placeholder is missing in \<open>data\<close> when it has no default and its key
  does not resolve. \<open>spans\<close> lists the inner texts of the matched spans of a scan, from
  left to right.
\<close>

definition span_key :: "string \<Rightarrow> string" where
  "span_key ks = String_trim (hd (String_split ''||'' ks))"

definition has_default :: "string \<Rightarrow> bool" where
  "has_default ks \<longleftrightarrow> 1 < length (String_split ''||'' ks)"

definition missing :: "jsval \<Rightarrow> string \<Rightarrow> bool" where
  "missing data ks \<longleftrightarrow>
     \<not> has_default ks \<and> getProperty data (span_key ks) JUndefined = JUndefined"

fun spans :: "piece list \<Rightarrow> string list" where
  "spans [] = []"
| "spans (Text t # ps) = spans ps"
| "spans (Span m None # ps) = spans ps"
| "spans (Span m (Some ks) # ps) = ks # spans ps"

text \<open>
  The instance of the README's section on missing values: \<open>ignoreMissing: true\<close> and
  the transform \<open>({ value, key }) => value || 'N/A'\<close>.
\<close>

definition readme_lenient :: config where
  "readme_lenient = Templatar
     \<lparr>opt_delimiters = None, opt_ignoreMissing = Some True,
      opt_transform =
        Some (\<lambda>d. Returns (if truthy (arg_value d) then arg_value d else JStr ''N/A''))\<rparr>"

text \<open>
  The instance whose transform hook throws, whatever it is given: the hook is a function
  of the caller and may end in an exception, which \<open>replace\<close> does not catch.
\<close>

definition throwing :: config where
  "throwing = Templatar
     \<lparr>opt_delimiters = None, opt_ignoreMissing = None,
      opt_transform = Some (\<lambda>d. Throws (JStr ''boom''))\<rparr>"

text \<open>
  A placeholder fails in \<open>data\<close> when its replacer ends in an error, be it the
  MissingKey error of line 46 or an exception of the transform hook.
\<close>

definition fails :: "config \<Rightarrow> jsval \<Rightarrow> string \<Rightarrow> bool" where
  "fails cfg data ks \<longleftrightarrow> isl (placeholder cfg data [] (Some ks))"

text \<open>
  The canonical text of an integer, stated without reference to \<open>Number_toString\<close>: an
  optional minus sign for a negative number, then decimal digits without a leading zero
  (the single digit \<open>0\<close> apart) whose value, read in base ten, is the absolute value
  of the number.
\<close>

definition is_digit :: "char \<Rightarrow> bool" where
  "is_digit c \<longleftrightarrow> c \<in> set ''0123456789''"

definition digit_value :: "char \<Rightarrow> nat" where
  "digit_value c = length (takeWhile (\<lambda>d. d \<noteq> c) ''0123456789'')"

definition digits_value :: "string \<Rightarrow> nat" where
  "digits_value ds = foldl (\<lambda>a c. 10 * a + digit_value c) 0 ds"

definition decimal_numeral :: "int \<Rightarrow> string \<Rightarrow> bool" where
  "decimal_numeral i s \<longleftrightarrow>
     (let ds = (if i < 0 then tl s else s)
      in (i < 0 \<longrightarrow> s \<noteq> [] \<and> hd s = CHR ''-'') \<and>
         ds \<noteq> [] \<and> list_all is_digit ds \<and> (hd ds = CHR ''0'' \<longrightarrow> ds = ''0'') \<and>
         int (digits_value ds) = \<bar>i\<bar>)"

text \<open>
  \<open>prune n v\<close> cuts \<open>v\<close> below nesting level \<open>n\<close>: a non-empty array or object found
  \<open>n\<close> levels down loses its content and keeps one placeholder member (an empty one
  stays empty); everything above that level stays as it is.
\<close>

fun prune :: "nat \<Rightarrow> jsval \<Rightarrow> jsval" where
  "prune n (JArr xs) =
     (if xs = [] then JArr []
      else case n of 0 \<Rightarrow> JArr [JUndefined] | Suc m \<Rightarrow> JArr (map (prune m) xs))"
| "prune n (JObj kvs) =
     (if kvs = [] then JObj []
      else case n of
             0 \<Rightarrow> JObj [([], JUndefined)]
           | Suc m \<Rightarrow> JObj (map (\<lambda>(k, v). (k, prune m v)) kvs))"
| "prune n v = v"

section \<open>Properties\<close>

subsection \<open>The compiled pattern\<close>

lemma escape_class_syntax: "escape_class c = SyntaxCharacter c"
  by (auto simp: escape_class_def SyntaxCharacter_def)

lemma prefix_group_src_Cons: "prefix group_src (c # cs) \<Longrightarrow> c = CHR ''(''"
  by (simp add: group_src_def)

lemma SyntaxCharacter_paren: "SyntaxCharacter (CHR ''('')"
  by (simp add: SyntaxCharacter_def)

lemma SyntaxCharacter_backslash: "SyntaxCharacter backslash"
  by (simp add: SyntaxCharacter_def)

lemma backslash_not_paren: "backslash \<noteq> CHR ''(''"
  by (simp add: backslash_def)

lemma RegExp_escape:
  "RegExp (escape S @ rest) = map_option ((@) (map Lit S)) (RegExp rest)"
proof (induction S)
  case Nil
  show ?case by (simp add: option.map_ident)
next
  case (Cons c cs)
  show ?case
  proof (cases "SyntaxCharacter c")
    case True
    have np: "\<not> prefix group_src (backslash # c # escape cs @ rest)"
      using prefix_group_src_Cons backslash_not_paren by blast
    show ?thesis
      using True np Cons.IH
      by (simp add: escape_class_syntax RegExp.simps option.map_comp comp_def)
  next
    case False
    then have c1: "c \<noteq> CHR ''(''" and c2: "c \<noteq> backslash"
      using SyntaxCharacter_paren SyntaxCharacter_backslash by auto
    have np: "\<not> prefix group_src (c # escape cs @ rest)"
      using prefix_group_src_Cons c1 by blast
    show ?thesis
      using False np c2 Cons.IH
      by (simp add: escape_class_syntax RegExp.simps option.map_comp comp_def)
  qed
qed

lemma RegExp_group:
  "RegExp (group_src @ rest) = map_option (Cons CaptureAny) (RegExp rest)"
proof -
  obtain g where g: "group_src = CHR ''('' # g"
    by (simp add: group_src_def)
  have "RegExp (CHR ''('' # g @ rest) =
          map_option (Cons CaptureAny) (RegExp (drop (length group_src) (CHR ''('' # g @ rest)))"
    by (subst RegExp.simps) (simp add: g)
  also have "drop (length group_src) (CHR ''('' # g @ rest) = rest"
    by (simp add: g)
  finally show ?thesis
    by (simp add: g)
qed

lemma pattern_compiled:
  "pattern cfg = Some (map Lit (starting cfg) @ CaptureAny # map Lit (closing cfg))"
proof -
  have "RegExp (escape (closing cfg)) = Some (map Lit (closing cfg))"
    using RegExp_escape [of "closing cfg" "[]"] by (simp add: RegExp.simps)
  then show ?thesis
    by (simp add: pattern_def RegExp_escape RegExp_group)
qed

lemma match_here_lits:
  "match_here (map Lit S @ r) s = (if prefix S s then match_here r (drop (length S) s) else None)"
proof (induction S arbitrary: s)
  case Nil
  show ?case by simp
next
  case (Cons c cs)
  show ?case by (cases s) (auto simp: Cons.IH)
qed

lemma match_here_closing:
  "match_here (map Lit C) s = (if prefix C s then Some (None, drop (length C) s) else None)"
  using match_here_lits [of C "[]" s] by simp

lemma match_here_capture:
  "match_here (CaptureAny # map Lit C) s =
     map_option (\<lambda>(inner, rest). (Some inner, rest)) (find_closing C s)"
proof (induction s)
  case Nil
  show ?case by simp
next
  case (Cons x xs)
  show ?case
    by (cases "find_closing C xs") (auto simp: match_here_closing Cons.IH)
qed

lemma find_closing_sound:
  "find_closing C s = Some (inner, rest) \<Longrightarrow> inner \<noteq> [] \<and> s = inner @ C @ rest"
proof (induction s arbitrary: inner)
  case Nil
  then show ?case by simp
next
  case (Cons x xs)
  show ?case
  proof (cases "prefix C xs")
    case True
    with Cons.prems show ?thesis by (auto simp: prefix_def)
  next
    case False
    with Cons.prems obtain i where "find_closing C xs = Some (i, rest)" "inner = x # i"
      by auto
    with Cons.IH show ?thesis by auto
  qed
qed

lemma find_closing_complete:
  "inner \<noteq> [] \<Longrightarrow> find_closing C (inner @ C @ rest) \<noteq> None"
proof (induction inner)
  case Nil
  then show ?case by simp
next
  case (Cons x xs)
  show ?case
  proof (cases "xs = []")
    case True
    then show ?thesis by simp
  next
    case False
    with Cons.IH show ?thesis by auto
  qed
qed

lemma find_closing_shortest:
  "find_closing C s = Some (inner, rest) \<Longrightarrow> inner' \<noteq> [] \<Longrightarrow> s = inner' @ C @ rest'
     \<Longrightarrow> length inner \<le> length inner'"
proof (induction s arbitrary: inner inner')
  case Nil
  then show ?case by simp
next
  case (Cons x xs)
  show ?case
  proof (cases "prefix C xs")
    case True
    with Cons.prems show ?thesis by (cases inner') auto
  next
    case False
    with Cons.prems(1) obtain i where i: "find_closing C xs = Some (i, rest)" "inner = x # i"
      by auto
    from Cons.prems(2,3) obtain y ys where y: "inner' = y # ys" "xs = ys @ C @ rest'"
      by (cases inner') auto
    with False have "ys \<noteq> []" by auto
    with Cons.IH [OF i(1) this y(2)] i(2) y(1) show ?thesis by simp
  qed
qed

lemma exec_literal:
  "exec (map Lit S @ CaptureAny # map Lit C) t = literal_exec S C t"
proof (induction t)
  case Nil
  show ?case by (simp add: match_here_lits)
next
  case (Cons x xs)
  show ?case
  proof (cases "if prefix S (x # xs) then find_closing C (drop (length S) (x # xs)) else None")
    case None
    then have "match_here (map Lit S @ CaptureAny # map Lit C) (x # xs) = None"
      by (simp add: match_here_lits match_here_capture split: if_splits)
    with None Cons.IH show ?thesis by simp
  next
    case (Some p)
    obtain inner rest where p: "p = (inner, rest)" by (cases p)
    from Some p have S: "prefix S (x # xs)"
      and fc: "find_closing C (drop (length S) (x # xs)) = Some (inner, rest)"
      by (auto split: if_splits)
    from S obtain u where u: "x # xs = S @ u" by (auto simp: prefix_def)
    with fc have "find_closing C u = Some (inner, rest)" by simp
    from find_closing_sound [OF this] u have t: "x # xs = (S @ inner @ C) @ rest" by simp
    have m: "match_here (map Lit S @ CaptureAny # map Lit C) (x # xs) = Some (Some inner, rest)"
      using S fc by (simp add: match_here_lits match_here_capture)
    have "take (length (x # xs) - length rest) (x # xs) = S @ inner @ C"
      by (subst (1 2) t) simp
    with m Some p show ?thesis by simp
  qed
qed

lemma literal_exec_sound:
  "literal_exec S C t = Some (pre, m, cap, rest) \<Longrightarrow>
     \<exists>inner. inner \<noteq> [] \<and> cap = Some inner \<and> m = S @ inner @ C \<and> t = pre @ S @ inner @ C @ rest"
proof (induction t arbitrary: pre)
  case Nil
  then show ?case by simp
next
  case (Cons x xs)
  show ?case
  proof (cases "if prefix S (x # xs) then find_closing C (drop (length S) (x # xs)) else None")
    case None
    with Cons.prems obtain pre' where
      "literal_exec S C xs = Some (pre', m, cap, rest)" "pre = x # pre'"
      by auto
    with Cons.IH show ?thesis by auto
  next
    case (Some p)
    obtain inner r where p: "p = (inner, r)" by (cases p)
    from Some p have S: "prefix S (x # xs)"
      and fc: "find_closing C (drop (length S) (x # xs)) = Some (inner, r)"
      by (auto split: if_splits)
    from S obtain u where u: "x # xs = S @ u" by (auto simp: prefix_def)
    with fc have "find_closing C u = Some (inner, r)" by simp
    from find_closing_sound [OF this] u have "inner \<noteq> []" "x # xs = S @ inner @ C @ r" by auto
    moreover from Cons.prems Some p have "pre = []" "m = S @ inner @ C" "cap = Some inner" "rest = r"
      by auto
    ultimately show ?thesis by auto
  qed
qed

lemma literal_exec_complete:
  "inner \<noteq> [] \<Longrightarrow> literal_exec S C (pre @ S @ inner @ C @ post) \<noteq> None"
proof (induction pre)
  case Nil
  obtain x xs where t: "S @ inner @ C @ post = x # xs"
    using Nil by (cases "S @ inner @ C @ post") auto
  have "prefix S (x # xs)" using t by (metis prefixI)
  moreover have "drop (length S) (x # xs) = inner @ C @ post"
    using t by (metis append_eq_conv_conj)
  moreover obtain p where "find_closing C (inner @ C @ post) = Some p"
    using find_closing_complete [OF Nil] by blast
  ultimately show ?case
    using t by (cases p) simp
next
  case (Cons y ys)
  then show ?case
    by (auto split: option.splits)
qed

lemma literal_exec_leftmost:
  "literal_exec S C t = Some (pre, m, cap, rest) \<Longrightarrow> inner' \<noteq> [] \<Longrightarrow>
     t = pre' @ S @ inner' @ C @ post' \<Longrightarrow> length pre \<le> length pre'"
proof (induction t arbitrary: pre pre')
  case Nil
  then show ?case by simp
next
  case (Cons x xs)
  show ?case
  proof (cases "if prefix S (x # xs) then find_closing C (drop (length S) (x # xs)) else None")
    case (Some p)
    with Cons.prems(1) have "pre = []" by (cases p) auto
    then show ?thesis by simp
  next
    case None
    with Cons.prems(1) obtain p where
      p: "literal_exec S C xs = Some (p, m, cap, rest)" "pre = x # p"
      by auto
    have "pre' \<noteq> []"
    proof
      assume e: "pre' = []"
      with Cons.prems(3) have t: "x # xs = S @ inner' @ C @ post'" by simp
      then have "prefix S (x # xs)" by (metis prefixI)
      moreover have "drop (length S) (x # xs) = inner' @ C @ post'"
        using t by (metis append_eq_conv_conj)
      ultimately show False
        using None find_closing_complete [OF Cons.prems(2), of C post'] by simp
    qed
    then obtain q where q: "pre' = x # q" "xs = q @ S @ inner' @ C @ post'"
      using Cons.prems(3) by (cases pre') auto
    from Cons.IH [OF p(1) Cons.prems(2) q(2)] p(2) q(1) show ?thesis by simp
  qed
qed

subsection \<open>The scan of a template\<close>

lemma scan_no_match: "exec r t = None \<Longrightarrow> scan r t = [Text t]"
  by (simp add: scan.simps)

lemma scan_match:
  "exec r t = Some (pre, m, cap, rest) \<Longrightarrow> m \<noteq> [] \<Longrightarrow>
     scan r t = Text pre # Span m cap # scan r rest"
  by (subst scan.simps) simp

lemma pattern_exec:
  "pattern cfg = Some r \<Longrightarrow> exec r t = literal_exec (starting cfg) (closing cfg) t"
  by (simp add: pattern_compiled exec_literal [symmetric])

lemma pattern_exec_sound:
  assumes "pattern cfg = Some r" and "exec r t = Some (pre, m, cap, rest)"
  shows "\<exists>inner. inner \<noteq> [] \<and> cap = Some inner \<and> m = starting cfg @ inner @ closing cfg
           \<and> t = pre @ m @ rest"
proof -
  from assms have "literal_exec (starting cfg) (closing cfg) t = Some (pre, m, cap, rest)"
    by (simp add: pattern_exec)
  from literal_exec_sound [OF this] obtain inner where
    "inner \<noteq> []" "cap = Some inner" "m = starting cfg @ inner @ closing cfg"
    "t = pre @ starting cfg @ inner @ closing cfg @ rest"
    by blast
  then show ?thesis by simp
qed

lemma replace_on_string:
  assumes "typeof data = ''object''" and "data \<noteq> JNull" and "pattern cfg = Some r"
  shows "replace cfg (JStr t) data = replace_pieces (placeholder cfg data) (scan r t)"
  using assms by (simp add: replace_def String_replace_def)

lemma literal_exec_shortest:
  "literal_exec S C t = Some (pre, m, Some inner, rest) \<Longrightarrow> inner' \<noteq> [] \<Longrightarrow>
     t = pre @ S @ inner' @ C @ post' \<Longrightarrow> length inner \<le> length inner'"
proof (induction t arbitrary: pre)
  case Nil
  then show ?case by simp
next
  case (Cons x xs)
  show ?case
  proof (cases "if prefix S (x # xs) then find_closing C (drop (length S) (x # xs)) else None")
    case (Some p)
    with Cons.prems(1) have pre: "pre = []" and p: "p = (inner, rest)" by (cases p; auto)+
    from Some p have "find_closing C (drop (length S) (x # xs)) = Some (inner, rest)"
      by (auto split: if_splits)
    moreover from Cons.prems(3) pre have "drop (length S) (x # xs) = inner' @ C @ post'"
      by (metis append_Nil append_eq_conv_conj)
    ultimately show ?thesis
      using find_closing_shortest [of C "inner' @ C @ post'" inner rest inner' post'] Cons.prems(2)
      by simp
  next
    case None
    with Cons.prems(1) obtain p where
      p: "literal_exec S C xs = Some (p, m, Some inner, rest)" "pre = x # p"
      by auto
    with Cons.prems(3) have "xs = p @ S @ inner' @ C @ post'" by simp
    from Cons.IH [OF p(1) Cons.prems(2) this] show ?thesis .
  qed
qed

lemma literal_exec_iff:
  "(\<exists>pre m cap rest. literal_exec S C t = Some (pre, m, cap, rest)) \<longleftrightarrow>
   (\<exists>pre inner post. inner \<noteq> [] \<and> t = pre @ S @ inner @ C @ post)"
proof
  assume "\<exists>pre m cap rest. literal_exec S C t = Some (pre, m, cap, rest)"
  then obtain pre m cap rest where "literal_exec S C t = Some (pre, m, cap, rest)"
    by blast
  from literal_exec_sound [OF this]
  show "\<exists>pre inner post. inner \<noteq> [] \<and> t = pre @ S @ inner @ C @ post" by blast
next
  assume "\<exists>pre inner post. inner \<noteq> [] \<and> t = pre @ S @ inner @ C @ post"
  then obtain pre inner post where "inner \<noteq> []" "t = pre @ S @ inner @ C @ post" by blast
  with literal_exec_complete [of inner S C pre post]
  have "literal_exec S C t \<noteq> None" by simp
  then obtain q where "literal_exec S C t = Some q" by blast
  then show "\<exists>pre m cap rest. literal_exec S C t = Some (pre, m, cap, rest)"
    by (cases q) simp
qed

lemma literal_exec_minimal:
  assumes le: "literal_exec S C t = Some (pre, m, cap, rest)"
  shows "\<exists>inner. inner \<noteq> [] \<and> cap = Some inner \<and> m = S @ inner @ C \<and>
           t = pre @ S @ inner @ C @ rest \<and>
           (\<forall>pre' inner' post'. inner' \<noteq> [] \<and> t = pre' @ S @ inner' @ C @ post' \<longrightarrow>
               length pre \<le> length pre' \<and> (pre' = pre \<longrightarrow> length inner \<le> length inner'))"
proof -
  from literal_exec_sound [OF le] obtain inner where
    i: "inner \<noteq> []" "cap = Some inner" "m = S @ inner @ C" "t = pre @ S @ inner @ C @ rest"
    by blast
  have min: "\<forall>pre' inner' post'. inner' \<noteq> [] \<and> t = pre' @ S @ inner' @ C @ post' \<longrightarrow>
               length pre \<le> length pre' \<and> (pre' = pre \<longrightarrow> length inner \<le> length inner')"
  proof (intro allI impI, elim conjE, rule conjI)
    fix pre' inner' post'
    assume h: "inner' \<noteq> []" "t = pre' @ S @ inner' @ C @ post'"
    show "length pre \<le> length pre'"
      by (rule literal_exec_leftmost [OF le h])
    show "pre' = pre \<longrightarrow> length inner \<le> length inner'"
    proof
      assume "pre' = pre"
      with h(2) have "t = pre @ S @ inner' @ C @ post'" by simp
      from literal_exec_shortest [OF le [unfolded i(2)] h(1) this]
      show "length inner \<le> length inner'" .
    qed
  qed
  show ?thesis
  proof (rule exI [of _ inner], intro conjI)
    show "inner \<noteq> []" by (rule i(1))
    show "cap = Some inner" by (rule i(2))
    show "m = S @ inner @ C" by (rule i(3))
    show "t = pre @ S @ inner @ C @ rest" by (rule i(4))
  qed (rule min)
qed

lemma typeof_string_iff: "typeof v = ''string'' \<longleftrightarrow> (\<exists>s. v = JStr s)"
  by (cases v) simp_all

lemma typeof_object_iff: "typeof v \<noteq> ''object'' \<or> v = JNull \<longleftrightarrow> v = JNull \<or> \<not> associative v"
  by (cases v) (simp_all add: associative_def)


subsection \<open>Instances and the scan of whole templates\<close>

lemma associative_iff: "associative v \<longleftrightarrow> typeof v = ''object'' \<and> v \<noteq> JNull"
  by (cases v) (simp_all add: associative_def)

lemma replace_associative:
  "associative data \<Longrightarrow> pattern cfg = Some r \<Longrightarrow>
     replace cfg (JStr t) data = replace_pieces (placeholder cfg data) (scan r t)"
  by (simp add: associative_iff replace_on_string)

lemma pattern_defaults:
  "pattern defaults = Some [Lit CHR ''<'', Lit CHR ''{'', CaptureAny, Lit CHR ''}'', Lit CHR ''>'']"
  by (simp add: pattern_compiled defaults_def Templatar_def no_options_def or_default_def)

lemma transform_defaults: "transform defaults = (\<lambda>data. Returns (arg_value data))"
  by (simp add: defaults_def Templatar_def no_options_def)

lemma ignoreMissing_defaults: "ignoreMissing defaults = False"
  by (simp add: defaults_def Templatar_def no_options_def)





subsection \<open>Splitting and the replacer\<close>

lemma String_split_not_Nil: "sep \<noteq> [] \<Longrightarrow> String_split sep s \<noteq> []"
  by (subst String_split.simps) (simp split: list.splits)

lemma prefix_sep_sublist:
  assumes "sep \<noteq> []" and "prefix sep (x # k @ sep @ rest)"
  shows "sublist sep ((x # k) @ butlast sep)"
proof -
  have "sep @ rest = butlast sep @ last sep # rest"
    using assms(1) by (metis append_butlast_last_id append_Cons append_Nil append_assoc)
  then have s: "x # k @ sep @ rest = ((x # k) @ butlast sep) @ last sep # rest"
    by simp
  have "length sep \<le> length ((x # k) @ butlast sep)"
    by simp
  with assms(2) s have "prefix sep ((x # k) @ butlast sep)"
    by (metis prefix_length_prefix prefixI)
  then show ?thesis by (rule prefix_imp_sublist)
qed

lemma String_split_first:
  assumes "sep \<noteq> []"
  shows "\<not> sublist sep (k @ butlast sep) \<Longrightarrow>
           String_split sep (k @ sep @ rest) = k # String_split sep rest"
proof (induction k)
  case Nil
  obtain c cs where "sep = c # cs" using assms by (cases sep) auto
  then show ?case
    by (subst String_split.simps) simp
next
  case (Cons x k)
  have np: "\<not> prefix sep (x # k @ sep @ rest)"
    using Cons.prems prefix_sep_sublist [OF assms] by blast
  have "\<not> sublist sep (k @ butlast sep)"
    using Cons.prems by (metis Cons_eq_appendI sublist_Cons_right)
  with Cons.IH have "String_split sep (k @ sep @ rest) = k # String_split sep rest" .
  with np assms show ?case
    by (subst String_split.simps) simp
qed

lemma String_split_none:
  assumes "sep \<noteq> []"
  shows "\<not> sublist sep s \<Longrightarrow> String_split sep s = [s]"
proof (induction s)
  case Nil
  with assms show ?case by (subst String_split.simps) simp
next
  case (Cons x s)
  have np: "\<not> prefix sep (x # s)"
    using Cons.prems prefix_imp_sublist by blast
  have "\<not> sublist sep s"
    using Cons.prems by (metis sublist_Cons_right)
  with Cons.IH have "String_split sep s = [s]" .
  with np assms show ?case
    by (subst String_split.simps) simp
qed

subsection \<open>The first failing placeholder\<close>

lemma getProperty_fallback:
  "getProperty data k JUndefined = JUndefined \<Longrightarrow> getProperty data k d = d"
  by (simp add: getProperty_def split: jsval.splits)

lemma getProperty_resolved:
  "getProperty data k JUndefined \<noteq> JUndefined \<Longrightarrow>
     getProperty data k d = getProperty data k JUndefined"
  by (simp add: getProperty_def split: jsval.splits)

lemma getProperty_defined: "d \<noteq> JUndefined \<Longrightarrow> getProperty data k d \<noteq> JUndefined"
  by (simp add: getProperty_def split: jsval.splits)

lemma bars_not_Nil: "''||'' \<noteq> []"
  by simp

lemma placeholder_match: "placeholder cfg data m k = placeholder cfg data m' k"
  by (simp add: placeholder_def)

lemma String_of_result_not_MissingKey: "String_of_result h \<noteq> Inl (MissingKey k)"
  by (cases h) (simp_all add: String_of_result_def)

lemma String_of_result_Returns: "String_of_result (Returns v) = Inr (js_String v)"
  by (simp add: String_of_result_def)

lemma placeholder_missing:
  assumes "missing data ks"
  shows "placeholder cfg data m (Some ks) =
     (if ignoreMissing cfg
      then String_of_result (transform cfg
             \<lparr>arg_value = normalize_value JUndefined, arg_defaultVal = JUndefined,
              arg_key = span_key ks\<rparr>)
      else Inl (MissingKey (span_key ks)))"
proof -
  obtain key others where sp: "String_split ''||'' ks = key # others"
    using String_split_not_Nil [OF bars_not_Nil, of ks] by (cases "String_split ''||'' ks") auto
  with assms have o: "others = []" and k: "span_key ks = String_trim key"
    and g: "getProperty data (String_trim key) JUndefined = JUndefined"
    by (simp_all add: missing_def has_default_def span_key_def)
  with sp show ?thesis
    by (simp add: placeholder_def)
qed

lemma placeholder_not_missing:
  assumes "\<not> missing data ks"
  shows "\<exists>dv. placeholder cfg data m (Some ks) =
     String_of_result (transform cfg
       \<lparr>arg_value = normalize_value (getProperty data (span_key ks) dv), arg_defaultVal = dv,
        arg_key = span_key ks\<rparr>)"
proof -
  obtain key others where sp: "String_split ''||'' ks = key # others"
    using String_split_not_Nil [OF bars_not_Nil, of ks] by (cases "String_split ''||'' ks") auto
  then have k: "span_key ks = String_trim key" by (simp add: span_key_def)
  show ?thesis
  proof (cases others)
    case Nil
    with sp assms have "getProperty data (String_trim key) JUndefined \<noteq> JUndefined"
      by (simp add: missing_def has_default_def span_key_def)
    with sp Nil k have "placeholder cfg data m (Some ks) =
       String_of_result (transform cfg
         \<lparr>arg_value = normalize_value (getProperty data (span_key ks) JUndefined),
          arg_defaultVal = JUndefined, arg_key = span_key ks\<rparr>)"
      by (simp add: placeholder_def Let_def)
    then show ?thesis by blast
  next
    case (Cons d ds)
    have "getProperty data (String_trim key) (JStr d) \<noteq> JUndefined"
      by (rule getProperty_defined) simp
    with sp Cons k have "placeholder cfg data m (Some ks) =
       String_of_result (transform cfg
         \<lparr>arg_value = normalize_value (getProperty data (span_key ks) (JStr d)),
          arg_defaultVal = JStr d, arg_key = span_key ks\<rparr>)"
      by (simp add: placeholder_def Let_def)
    then show ?thesis by blast
  qed
qed

lemma placeholder_MissingKey_iff:
  "placeholder cfg data m (Some ks) = Inl (MissingKey k) \<longleftrightarrow>
     missing data ks \<and> \<not> ignoreMissing cfg \<and> k = span_key ks"
proof (cases "missing data ks")
  case True
  then show ?thesis
    by (auto simp: placeholder_missing String_of_result_not_MissingKey)
next
  case False
  from placeholder_not_missing [OF False, of cfg m] obtain dv where
    "placeholder cfg data m (Some ks) =
     String_of_result (transform cfg
       \<lparr>arg_value = normalize_value (getProperty data (span_key ks) dv), arg_defaultVal = dv,
        arg_key = span_key ks\<rparr>)"
    by blast
  with False show ?thesis
    by (simp add: String_of_result_not_MissingKey)
qed

lemma fails_returning:
  assumes "\<forall>a. \<exists>v. transform cfg a = Returns v"
  shows "fails cfg data ks \<longleftrightarrow> missing data ks \<and> \<not> ignoreMissing cfg"
proof (cases "missing data ks")
  case True
  let ?a = "\<lparr>arg_value = normalize_value JUndefined, arg_defaultVal = JUndefined,
              arg_key = span_key ks\<rparr>"
  from assms obtain v where "transform cfg ?a = Returns v" by blast
  with True show ?thesis
    by (simp add: fails_def placeholder_missing String_of_result_Returns)
next
  case False
  from placeholder_not_missing [OF False, of cfg "[]"] obtain dv where
    p: "placeholder cfg data [] (Some ks) =
     String_of_result (transform cfg
       \<lparr>arg_value = normalize_value (getProperty data (span_key ks) dv), arg_defaultVal = dv,
        arg_key = span_key ks\<rparr>)"
    by blast
  from assms obtain v where "transform cfg
       \<lparr>arg_value = normalize_value (getProperty data (span_key ks) dv), arg_defaultVal = dv,
        arg_key = span_key ks\<rparr> = Returns v" by blast
  with p False show ?thesis
    by (simp add: fails_def String_of_result_Returns)
qed

lemma bind_Inl_iff:
  "(case x of Inl e' \<Rightarrow> Inl e' | Inr out \<Rightarrow> Inr (f out)) = Inl e \<longleftrightarrow> x = Inl e"
  by (cases x) auto

lemma replace_pieces_first_failure:
  "pattern cfg = Some r \<Longrightarrow>
     replace_pieces (placeholder cfg data) (scan r t) = Inl e \<longleftrightarrow>
     (\<exists>ks. find (fails cfg data) (spans (scan r t)) = Some ks \<and>
           placeholder cfg data [] (Some ks) = Inl e)"
proof (induction r t rule: scan.induct)
  case (1 r t)
  show ?case
  proof (cases "exec r t")
    case None
    then show ?thesis by (simp add: scan_no_match)
  next
    case (Some q)
    obtain pre m cap rest where q: "q = (pre, m, cap, rest)" by (cases q)
    from pattern_exec_sound [OF "1.prems"(1) Some [unfolded q]] obtain inner where
      i: "inner \<noteq> []" "cap = Some inner" "m = starting cfg @ inner @ closing cfg"
      by blast
    then have m: "m \<noteq> []" by simp
    have sc: "scan r t = Text pre # Span m (Some inner) # scan r rest"
      using scan_match [OF Some [unfolded q] m] i(2) by simp
    have IH: "replace_pieces (placeholder cfg data) (scan r rest) = Inl e \<longleftrightarrow>
       (\<exists>ks. find (fails cfg data) (spans (scan r rest)) = Some ks \<and>
             placeholder cfg data [] (Some ks) = Inl e)"
      using "1.IH"(2) [OF Some q [symmetric] refl refl m "1.prems"] .
    have pm: "placeholder cfg data m (Some inner) = placeholder cfg data [] (Some inner)"
      by (rule placeholder_match)
    show ?thesis
    proof (cases "placeholder cfg data [] (Some inner)")
      case (Inl e')
      then have "fails cfg data inner" by (simp add: fails_def)
      with Inl pm show ?thesis
        by (auto simp: sc)
    next
      case (Inr out)
      then have "\<not> fails cfg data inner" by (simp add: fails_def)
      with Inr pm IH show ?thesis
        by (simp add: sc bind_Inl_iff)
    qed
  qed
qed

lemma replace_first_failure:
  assumes "associative data" and "pattern cfg = Some r"
  shows "replace cfg (JStr t) data = Inl e \<longleftrightarrow>
     (\<exists>ks. find (fails cfg data) (spans (scan r t)) = Some ks \<and>
           placeholder cfg data [] (Some ks) = Inl e)"
  using assms by (simp add: replace_associative replace_pieces_first_failure)

lemma find_fails_Some:
  "find (fails cfg data) xs = Some ks \<Longrightarrow> \<exists>e. placeholder cfg data [] (Some ks) = Inl e"
  by (auto simp: find_Some_iff fails_def isl_def)

lemma replace_strict_returning:
  assumes h: "\<forall>a. \<exists>v. transform cfg a = Returns v"
    and a: "associative data" and p: "pattern cfg = Some r" and s: "\<not> ignoreMissing cfg"
  shows "replace cfg (JStr t) data = Inl e \<longleftrightarrow>
     (\<exists>ks. find (missing data) (spans (scan r t)) = Some ks \<and> e = MissingKey (span_key ks))"
proof -
  have eq: "fails cfg data = missing data"
    using fails_returning [OF h] s by (intro ext) simp
  have m: "placeholder cfg data [] (Some ks) = Inl e \<longleftrightarrow> e = MissingKey (span_key ks)"
    if "find (missing data) (spans (scan r t)) = Some ks" for ks
  proof -
    from that have "missing data ks" by (auto simp: find_Some_iff)
    with s show ?thesis by (auto simp: placeholder_missing)
  qed
  show ?thesis
    unfolding replace_first_failure [OF a p] eq using m by blast
qed

lemma replace_lenient_returning:
  assumes h: "\<forall>a. \<exists>v. transform cfg a = Returns v"
    and a: "associative data" and l: "ignoreMissing cfg"
  shows "\<exists>out. replace cfg (JStr t) data = Inr out"
proof (cases "replace cfg (JStr t) data")
  case (Inr out)
  then show ?thesis by blast
next
  case (Inl e)
  with replace_first_failure [OF a pattern_compiled, of cfg t e] obtain ks where
    "find (fails cfg data) (spans (scan (map Lit (starting cfg) @ CaptureAny # map Lit (closing cfg)) t)) = Some ks"
    by blast
  then have "fails cfg data ks" by (auto simp: find_Some_iff)
  with fails_returning [OF h, of data ks] l show ?thesis by simp
qed

lemma replace_no_MissingKey_lenient:
  assumes a: "associative data" and l: "ignoreMissing cfg"
  shows "replace cfg (JStr t) data \<noteq> Inl (MissingKey k)"
proof
  assume "replace cfg (JStr t) data = Inl (MissingKey k)"
  with replace_first_failure [OF a pattern_compiled, of cfg t "MissingKey k"] obtain ks where
    "placeholder cfg data [] (Some ks) = Inl (MissingKey k)" by blast
  with l show False by (simp add: placeholder_MissingKey_iff)
qed

subsection \<open>Text appended to a template\<close>












subsection \<open>The text of numbers and the depth bound of inspect\<close>

lemma below_ten: "k < (10::nat) \<Longrightarrow> k \<in> {0, 1, 2, 3, 4, 5, 6, 7, 8, 9}"
  by auto

lemma digit_char:
  assumes "k < 10"
  shows "is_digit (''0123456789'' ! k)" and "digit_value (''0123456789'' ! k) = k"
    and "''0123456789'' ! k = CHR ''0'' \<longleftrightarrow> k = 0"
  using below_ten [OF assms] by (auto simp: is_digit_def digit_value_def)

lemma digits_value_snoc: "digits_value (ds @ [c]) = 10 * digits_value ds + digit_value c"
  by (simp add: digits_value_def)

lemma digits_not_Nil: "digits n \<noteq> []"
  by (subst digits.simps) simp

lemma digits_all: "list_all is_digit (digits n)"
proof (induction n rule: digits.induct)
  case (1 n)
  show ?case
  proof (cases "n < 10")
    case True
    then show ?thesis by (subst digits.simps) (simp add: digit_char)
  next
    case False
    with 1 show ?thesis by (subst digits.simps) (simp add: digit_char)
  qed
qed

lemma digits_value_digits: "digits_value (digits n) = n"
proof (induction n rule: digits.induct)
  case (1 n)
  show ?case
  proof (cases "n < 10")
    case True
    then show ?thesis
      by (subst digits.simps) (simp add: digit_char digits_value_snoc [of "[]", simplified] digits_value_def)
  next
    case False
    with 1 show ?thesis
      by (subst digits.simps) (simp add: digit_char digits_value_snoc)
  qed
qed

lemma digits_leading_zero: "hd (digits n) = CHR ''0'' \<Longrightarrow> digits n = ''0''"
proof (induction n rule: digits.induct)
  case (1 n)
  show ?case
  proof (cases "n < 10")
    case True
    with "1.prems" have "n = 0"
      by (subst (asm) digits.simps) (simp add: digit_char)
    then show ?thesis by (subst digits.simps) simp
  next
    case False
    with "1.prems" have "hd (digits (n div 10)) = CHR ''0''"
      by (subst (asm) digits.simps) (simp add: digits_not_Nil)
    with "1.IH" False have "digits (n div 10) = ''0''" by simp
    then have "digits_value (digits (n div 10)) = 0" by (simp add: digits_value_def digit_value_def)
    then have "n div 10 = 0" by (simp add: digits_value_digits)
    with False show ?thesis by simp
  qed
qed

lemma Number_toString_decimal: "decimal_numeral (sint w) (Number_toString w)"
proof (cases "sint w < 0")
  case True
  then have "int (nat (- sint w)) = \<bar>sint w\<bar>" by simp
  with True show ?thesis
    by (simp add: decimal_numeral_def Number_toString_def digits_not_Nil digits_all
        digits_leading_zero digits_value_digits)
next
  case False
  then have "int (nat (sint w)) = \<bar>sint w\<bar>" by simp
  with False show ?thesis
    by (simp add: decimal_numeral_def Number_toString_def digits_not_Nil digits_all
        digits_leading_zero digits_value_digits)
qed

lemma Number_range: "- (2 ^ 53) \<le> sint (w :: 54 word) \<and> sint w < 2 ^ 53"
  using sint_ge [of w] sint_lt [of w] by simp

lemma formatValue_prune:
  "formatValue depth lvl (prune (Suc depth - lvl) v) = formatValue depth lvl v"
proof (induction depth lvl v rule: formatValue.induct)
  case (9 depth lvl xs)
  show ?case
  proof (cases "xs = []")
    case True
    then show ?thesis by simp
  next
    case ne: False
    show ?thesis
    proof (cases "depth < lvl")
      case True
      then have "Suc depth - lvl = 0" by simp
      with ne True show ?thesis by simp
    next
      case False
      then have s: "Suc depth - lvl = Suc (depth - lvl)" by simp
      have "\<And>x. x \<in> set xs \<Longrightarrow>
          formatValue depth (Suc lvl) (prune (depth - lvl) x) = formatValue depth (Suc lvl) x"
        using 9 ne False by (simp add: Suc_diff_le)
      then have m: "map (formatValue depth (Suc lvl) \<circ> prune (depth - lvl)) xs
              = map (formatValue depth (Suc lvl)) xs"
        by (intro map_cong refl) simp
      from ne False s show ?thesis by (simp add: m)
    qed
  qed
next
  case (10 depth lvl kvs)
  show ?case
  proof (cases "kvs = []")
    case True
    then show ?thesis by simp
  next
    case ne: False
    show ?thesis
    proof (cases "depth < lvl")
      case True
      then have "Suc depth - lvl = 0" by simp
      with ne True show ?thesis by simp
    next
      case False
      then have s: "Suc depth - lvl = Suc (depth - lvl)" by simp
      have "\<And>k v. (k, v) \<in> set kvs \<Longrightarrow>
          formatValue depth (Suc lvl) (prune (depth - lvl) v) = formatValue depth (Suc lvl) v"
        using 10 ne False by (simp add: Suc_diff_le)
      then have m: "map ((\<lambda>(k, v). k @ CHR '':'' # CHR '' '' # formatValue depth (Suc lvl) v) \<circ>
                      (\<lambda>(k, v). (k, prune (depth - lvl) v))) kvs
              = map (\<lambda>(k, v). k @ CHR '':'' # CHR '' '' # formatValue depth (Suc lvl) v) kvs"
        by (intro map_cong refl) auto
      from ne False s show ?thesis by (simp add: m)
    qed
  qed
qed simp_all

lemma inspect_bounded: "inspect v 4 = inspect (prune 5 v) 4"
  using formatValue_prune [of 4 0 v] by (simp add: inspect_def)

lemma sublist_join: "x \<in> set xs \<Longrightarrow> sublist x (join sep xs)"
proof (induction sep xs rule: join.induct)
  case (1 sep)
  then show ?case by simp
next
  case (2 sep y)
  then show ?case by simp
next
  case (3 sep y z zs)
  show ?case
  proof (cases "x = y")
    case True
    then show ?thesis by simp
  next
    case False
    with 3 have "sublist x (join sep (z # zs))" by simp
    then show ?thesis
      by (simp add: sublist_append)
  qed
qed

lemma object_member_printed:
  assumes "lvl \<le> depth" and "(k, w) \<in> set kvs"
  shows "sublist (k @ '': '' @ formatValue depth (Suc lvl) w) (formatValue depth lvl (JObj kvs))"
proof -
  from assms(2) have ne: "kvs \<noteq> []" by auto
  from assms(2) have "k @ '': '' @ formatValue depth (Suc lvl) w
      \<in> set (map (\<lambda>(k, v). k @ '': '' @ formatValue depth (Suc lvl) v) kvs)"
    by force
  from sublist_join [OF this, of "'', ''"] ne assms(1) show ?thesis
    by (simp add: sublist_append sublist_Cons_right)
qed

lemma array_member_printed:
  assumes "lvl \<le> depth" and "w \<in> set xs"
  shows "sublist (formatValue depth (Suc lvl) w) (formatValue depth lvl (JArr xs))"
proof -
  from assms(2) have ne: "xs \<noteq> []" by auto
  from assms(2) have "formatValue depth (Suc lvl) w \<in> set (map (formatValue depth (Suc lvl)) xs)"
    by simp
  from sublist_join [OF this, of "'', ''"] ne assms(1) show ?thesis
    by (simp add: sublist_append sublist_Cons_right)
qed

subsection \<open>The parts of a placeholder and the errors of replace\<close>

lemma split_bars_first:
  "\<not> sublist ''||'' (k @ ''|'') \<Longrightarrow>
     String_split ''||'' (k @ CHR ''|'' # CHR ''|'' # rest) = k # String_split ''||'' rest"
  using String_split_first [of "''||''" k rest] by simp

lemma split_bars_none: "\<not> sublist ''||'' s \<Longrightarrow> String_split ''||'' s = [s]"
  using String_split_none [of "''||''" s] by simp

lemma placeholder_parts:
  "String_split ''||'' ks = key # d # ds \<Longrightarrow>
     placeholder cfg data m (Some ks) =
       String_of_result (transform cfg
         \<lparr>arg_value = normalize_value (getProperty data (String_trim key) (JStr d)),
          arg_defaultVal = JStr d, arg_key = String_trim key\<rparr>)"
  by (simp add: placeholder_def Let_def getProperty_defined)

text \<open>
  The errors of \<open>replace\<close> are the three that \<open>src/index.js\<close> throws itself and the
  exceptions of the transform hook: the pattern always compiles, and the replacer
  always receives the captured text.
\<close>

lemma String_of_result_error: "String_of_result h = Inl e \<Longrightarrow> \<exists>x. e = Thrown x"
  by (cases h) (auto simp: String_of_result_def)

lemma placeholder_error_kinds:
  assumes "placeholder cfg data m (Some ks) = Inl e"
  shows "(\<exists>k. e = MissingKey k) \<or> (\<exists>x. e = Thrown x)"
proof (cases "missing data ks")
  case True
  show ?thesis
  proof (cases "ignoreMissing cfg")
    case False
    with True assms show ?thesis by (auto simp: placeholder_missing)
  next
    case l: True
    with True assms obtain h where "String_of_result h = Inl e"
      by (simp add: placeholder_missing)
    from String_of_result_error [OF this] show ?thesis by blast
  qed
next
  case False
  from placeholder_not_missing [OF False, of cfg m] assms obtain h where
    "String_of_result h = Inl e" by auto
  from String_of_result_error [OF this] show ?thesis by blast
qed

lemma replace_error_kinds:
  assumes "replace cfg template data = Inl e"
  shows "e = InvalidTemplateType \<or> e = InvalidDataType \<or> (\<exists>k. e = MissingKey k) \<or>
         (\<exists>x. e = Thrown x)"
proof (cases "\<forall>s. template \<noteq> JStr s")
  case True
  then have "typeof template \<noteq> ''string''" by (simp add: typeof_string_iff)
  with assms show ?thesis by (simp add: replace_def)
next
  case False
  then obtain t where t: "template = JStr t" by blast
  show ?thesis
  proof (cases "associative data")
    case False
    then have "typeof data \<noteq> ''object'' \<or> data = JNull"
      using associative_iff [of data] by blast
    with assms t show ?thesis by (simp add: replace_def)
  next
    case True
    from replace_first_failure [OF True pattern_compiled, of cfg t e] assms t obtain ks where
      "placeholder cfg data [] (Some ks) = Inl e" by blast
    from placeholder_error_kinds [OF this] show ?thesis by blast
  qed
qed

lemma message_names_key: "sublist k (message (MissingKey k))"
  by (simp add: sublist_def) (metis append_Cons append_Nil)


section \<open>Claims\<close>

text \<open>
  Claim C1. A placeholder whose inner text holds two or more separators \<open>||\<close> is to be
  split at the first separator only, the whole remainder being the default expression.
  The key is indeed the text before the first separator. The default is not the
  remainder: \<open>split\<close> cuts at every separator and the destructuring keeps the first two
  parts, so the default is the text between the first and the second separator and
  everything from the second separator on is dropped. The theorem states this for every
  key \<open>k\<close> and default \<open>d\<close> that are free of separators, whatever text \<open>e\<close> follows the
  second separator, and evaluates \<open>replace\<close> on \<open><{k||a||b}>\<close>, where the default is
  \<open>a\<close> and not \<open>a||b\<close>.
\<close>

theorem default_cut_at_second_separator:
  "(\<not> sublist ''||'' (k @ ''|'') \<and> \<not> sublist ''||'' (d @ ''|'') \<longrightarrow>
      placeholder cfg data m (Some (k @ ''||'' @ d @ ''||'' @ e)) =
        String_of_result (transform cfg
          \<lparr>arg_value = normalize_value (getProperty data (String_trim k) (JStr d)),
           arg_defaultVal = JStr d, arg_key = String_trim k\<rparr>)) \<and>
   String_split ''||'' ''k||a||b'' = [''k'', ''a'', ''b''] \<and>
   replace defaults (JStr ''<{k||a||b}>'') (JObj []) = Inr ''a''"
proof (intro conjI impI)
  assume a: "\<not> sublist ''||'' (k @ ''|'') \<and> \<not> sublist ''||'' (d @ ''|'')"
  obtain p ps where "String_split ''||'' e = p # ps"
    using String_split_not_Nil [OF bars_not_Nil, of e] by (cases "String_split ''||'' e") auto
  with a have "String_split ''||'' (k @ ''||'' @ d @ ''||'' @ e) = k # d # p # ps"
    by (simp add: split_bars_first)
  then show "placeholder cfg data m (Some (k @ ''||'' @ d @ ''||'' @ e)) =
        String_of_result (transform cfg
          \<lparr>arg_value = normalize_value (getProperty data (String_trim k) (JStr d)),
           arg_defaultVal = JStr d, arg_key = String_trim k\<rparr>)"
    by (rule placeholder_parts)
next
  show "String_split ''||'' ''k||a||b'' = [''k'', ''a'', ''b'']" by code_simp
next
  show "replace defaults (JStr ''<{k||a||b}>'') (JObj []) = Inr ''a''" by code_simp
qed

theorem default_cut_at_second_separator_witness:
  "\<not> sublist ''||'' (''k'' @ ''|'') \<and> \<not> sublist ''||'' (''a'' @ ''|'') \<and>
   placeholder defaults (JObj []) ''<{k||a||b}>'' (Some (''k'' @ ''||'' @ ''a'' @ ''||'' @ ''b'')) = Inr ''a''"
proof -
  have h: "\<not> sublist ''||'' (''k'' @ ''|'') \<and> \<not> sublist ''||'' (''a'' @ ''|'')" by code_simp
  have g: "getProperty (JObj []) (String_trim ''k'') (JStr ''a'') = JStr ''a''" by code_simp
  from default_cut_at_second_separator [of "''k''" "''a''" defaults "JObj []" "''<{k||a||b}>''" "''b''"] h
  have "placeholder defaults (JObj []) ''<{k||a||b}>'' (Some (''k'' @ ''||'' @ ''a'' @ ''||'' @ ''b'')) =
      String_of_result (transform defaults
          \<lparr>arg_value = normalize_value (getProperty (JObj []) (String_trim ''k'') (JStr ''a'')),
           arg_defaultVal = JStr ''a'', arg_key = String_trim ''k''\<rparr>)"
    by blast
  with g have "placeholder defaults (JObj []) ''<{k||a||b}>'' (Some (''k'' @ ''||'' @ ''a'' @ ''||'' @ ''b''))
      = Inr ''a''"
    by (simp add: transform_defaults normalize_value_def String_of_result_def)
  with h show ?thesis by simp
qed

text \<open>
  Claim C2. \<open>replace\<close> raises MissingKey, naming the key, exactly for a placeholder
  whose key does not resolve and whose default is absent while \<open>ignoreMissing\<close> is
  false; processing stops at the first failing placeholder and nothing is returned; with
  \<open>ignoreMissing\<close> true the undefined value goes on to the transform step and no
  MissingKey is raised. The theorem states, in this order: for every instance, whatever
  its hook does, \<open>replace\<close> ends in an error exactly when the replacer of some
  placeholder does, and the error is that of the first such placeholder from the left;
  the replacer ends in MissingKey exactly for a missing placeholder under
  \<open>ignoreMissing\<close> false, and the error holds the trimmed key; for a hook that returns
  on every argument and \<open>ignoreMissing\<close> false, \<open>replace\<close> ends in an error exactly
  when some placeholder is missing, and the error is MissingKey of the first missing
  one; with \<open>ignoreMissing\<close> true MissingKey is never raised, and a hook that returns
  on every argument makes \<open>replace\<close> return an output; under \<open>ignoreMissing\<close> true
  the replacer of a missing placeholder is the transform step applied to the undefined
  value, which lines 49 to 56 normalize like every other value (claim C6); the message
  of MissingKey contains the key.
\<close>

theorem missing_key_policy:
  "(associative data \<and> pattern cfg = Some r \<longrightarrow>
      (replace cfg (JStr t) data = Inl e \<longleftrightarrow>
         (\<exists>ks. find (fails cfg data) (spans (scan r t)) = Some ks \<and>
               placeholder cfg data [] (Some ks) = Inl e))) \<and>
   (placeholder cfg data m (Some ks) = Inl (MissingKey k) \<longleftrightarrow>
      missing data ks \<and> \<not> ignoreMissing cfg \<and> k = span_key ks) \<and>
   ((\<forall>a. \<exists>v. transform cfg a = Returns v) \<and> associative data \<and> pattern cfg = Some r \<and>
    \<not> ignoreMissing cfg \<longrightarrow>
      (replace cfg (JStr t) data = Inl e \<longleftrightarrow>
         (\<exists>ks. find (missing data) (spans (scan r t)) = Some ks \<and> e = MissingKey (span_key ks)))) \<and>
   (associative data \<and> ignoreMissing cfg \<longrightarrow> replace cfg (JStr t) data \<noteq> Inl (MissingKey k)) \<and>
   ((\<forall>a. \<exists>v. transform cfg a = Returns v) \<and> associative data \<and> ignoreMissing cfg \<longrightarrow>
      (\<exists>out. replace cfg (JStr t) data = Inr out)) \<and>
   (missing data ks \<and> ignoreMissing cfg \<longrightarrow>
      placeholder cfg data m (Some ks) =
        String_of_result (transform cfg
          \<lparr>arg_value = normalize_value JUndefined, arg_defaultVal = JUndefined,
           arg_key = span_key ks\<rparr>)) \<and>
   sublist k (message (MissingKey k))"
proof (intro conjI impI)
  assume "associative data \<and> pattern cfg = Some r"
  then show "replace cfg (JStr t) data = Inl e \<longleftrightarrow>
         (\<exists>ks. find (fails cfg data) (spans (scan r t)) = Some ks \<and>
               placeholder cfg data [] (Some ks) = Inl e)"
    by (simp add: replace_first_failure)
next
  show "placeholder cfg data m (Some ks) = Inl (MissingKey k) \<longleftrightarrow>
      missing data ks \<and> \<not> ignoreMissing cfg \<and> k = span_key ks"
    by (rule placeholder_MissingKey_iff)
next
  assume "(\<forall>a. \<exists>v. transform cfg a = Returns v) \<and> associative data \<and> pattern cfg = Some r \<and>
    \<not> ignoreMissing cfg"
  then show "replace cfg (JStr t) data = Inl e \<longleftrightarrow>
         (\<exists>ks. find (missing data) (spans (scan r t)) = Some ks \<and> e = MissingKey (span_key ks))"
    using replace_strict_returning [of cfg data r t e] by blast
next
  assume "associative data \<and> ignoreMissing cfg"
  then show "replace cfg (JStr t) data \<noteq> Inl (MissingKey k)"
    by (simp add: replace_no_MissingKey_lenient)
next
  assume "(\<forall>a. \<exists>v. transform cfg a = Returns v) \<and> associative data \<and> ignoreMissing cfg"
  then show "\<exists>out. replace cfg (JStr t) data = Inr out"
    using replace_lenient_returning [of cfg data t] by blast
next
  assume "missing data ks \<and> ignoreMissing cfg"
  then show "placeholder cfg data m (Some ks) =
        String_of_result (transform cfg
          \<lparr>arg_value = normalize_value JUndefined, arg_defaultVal = JUndefined,
           arg_key = span_key ks\<rparr>)"
    by (simp add: placeholder_missing)
next
  show "sublist k (message (MissingKey k))" by (rule message_names_key)
qed

theorem missing_key_policy_witness:
  "associative (JObj [(''name'', JStr ''Charlie'')]) \<and>
   pattern defaults = Some [Lit CHR ''<'', Lit CHR ''{'', CaptureAny, Lit CHR ''}'', Lit CHR ''>''] \<and>
   (\<forall>a. \<exists>v. transform defaults a = Returns v) \<and>
   \<not> ignoreMissing defaults \<and>
   find (missing (JObj [(''name'', JStr ''Charlie'')]))
     (spans (scan [Lit CHR ''<'', Lit CHR ''{'', CaptureAny, Lit CHR ''}'', Lit CHR ''>'']
        ''<{name}>: <{ score }>, <{rank}>'')) = Some '' score '' \<and>
   span_key '' score '' = ''score'' \<and>
   replace defaults (JStr ''<{name}>: <{ score }>, <{rank}>'') (JObj [(''name'', JStr ''Charlie'')])
     = Inl (MissingKey ''score'') \<and>
   find (fails throwing (JObj [(''name'', JStr ''Charlie'')]))
     (spans (scan [Lit CHR ''<'', Lit CHR ''{'', CaptureAny, Lit CHR ''}'', Lit CHR ''>'']
        ''<{name}>: <{ score }>, <{rank}>'')) = Some ''name'' \<and>
   replace throwing (JStr ''<{name}>: <{ score }>, <{rank}>'') (JObj [(''name'', JStr ''Charlie'')])
     = Inl (Thrown (JStr ''boom'')) \<and>
   ignoreMissing readme_lenient \<and>
   (\<forall>a. \<exists>v. transform readme_lenient a = Returns v) \<and>
   missing (JObj [(''name'', JStr ''Charlie'')]) ''score'' \<and>
   placeholder readme_lenient (JObj [(''name'', JStr ''Charlie'')]) ''<{score}>'' (Some ''score'')
     = Inr ''undefined'' \<and>
   (\<exists>out. replace readme_lenient (JStr ''User: <{name}>, Score: <{score}>'')
      (JObj [(''name'', JStr ''Charlie'')]) = Inr out)"
proof -
  let ?d = "JObj [(''name'', JStr ''Charlie'')]"
  let ?r = "[Lit CHR ''<'', Lit CHR ''{'', CaptureAny, Lit CHR ''}'', Lit CHR ''>'']"
  let ?t = "''<{name}>: <{ score }>, <{rank}>''"
  have a: "associative ?d" by (simp add: associative_def)
  have hd: "\<forall>a. \<exists>v. transform defaults a = Returns v" by (simp add: transform_defaults)
  have i: "\<not> ignoreMissing defaults" by (simp add: ignoreMissing_defaults)
  have f: "find (missing ?d) (spans (scan ?r ?t)) = Some '' score ''" by code_simp
  have ks: "span_key '' score '' = ''score''" by code_simp
  have k: "span_key ''score'' = ''score''" by code_simp
  have pt: "pattern throwing = Some ?r"
    by (simp add: pattern_compiled throwing_def Templatar_def or_default_def)
  have ft: "find (fails throwing ?d) (spans (scan ?r ?t)) = Some ''name''" by code_simp
  have et: "placeholder throwing ?d [] (Some ''name'') = Inl (Thrown (JStr ''boom''))" by code_simp
  have l: "ignoreMissing readme_lenient" by (simp add: readme_lenient_def Templatar_def)
  have hl: "\<forall>a. \<exists>v. transform readme_lenient a = Returns v"
    by (simp add: readme_lenient_def Templatar_def)
  have mi: "missing ?d ''score''" by code_simp
  have tr: "String_of_result (transform readme_lenient
      \<lparr>arg_value = normalize_value JUndefined, arg_defaultVal = JUndefined, arg_key = ''score''\<rparr>)
      = Inr ''undefined''"
    by (simp add: readme_lenient_def Templatar_def String_of_result_def normalize_value_def)
  note pol = missing_key_policy
  from pol [of ?d defaults ?r ?t "MissingKey ''score''"] a pattern_defaults hd i f ks
  have strict: "replace defaults (JStr ?t) ?d = Inl (MissingKey ''score'')" by simp
  from pol [of ?d throwing ?r ?t "Thrown (JStr ''boom'')"] a pt ft et
  have thrown: "replace throwing (JStr ?t) ?d = Inl (Thrown (JStr ''boom''))" by simp
  from pol [of ?d readme_lenient ?r ?t "MissingKey []" "''<{score}>''" "''score''"] mi l k tr
  have lenient: "placeholder readme_lenient ?d ''<{score}>'' (Some ''score'') = Inr ''undefined''"
    by simp
  from pol [of ?d readme_lenient ?r "''User: <{name}>, Score: <{score}>''"] a l hl
  have out: "\<exists>out. replace readme_lenient (JStr ''User: <{name}>, Score: <{score}>'') ?d = Inr out"
    by blast
  from a pattern_defaults hd i f ks strict ft thrown l hl mi lenient out show ?thesis
    by (intro conjI)
qed

text \<open>
  Claim C3. \<open>replace\<close> raises InvalidTemplateType whenever the template is not a
  string, and InvalidDataType whenever the data is \<open>null\<close> or not an associative
  structure; either way the call ends with the error and no output. The template is
  checked first, so that the error of a call whose two arguments are both invalid is
  InvalidTemplateType.
\<close>

theorem type_errors:
  "((\<forall>s. template \<noteq> JStr s) \<longrightarrow> replace cfg template data = Inl InvalidTemplateType) \<and>
   ((\<exists>s. template = JStr s) \<and> (data = JNull \<or> \<not> associative data) \<longrightarrow>
      replace cfg template data = Inl InvalidDataType) \<and>
   ((\<forall>s. template \<noteq> JStr s) \<or> data = JNull \<or> \<not> associative data \<longrightarrow>
      (\<exists>e. replace cfg template data = Inl e))"
proof -
  have t: "replace cfg template data = Inl InvalidTemplateType" if "\<forall>s. template \<noteq> JStr s"
  proof -
    from that have "typeof template \<noteq> ''string''" by (simp add: typeof_string_iff)
    then show ?thesis by (simp add: replace_def)
  qed
  have d: "replace cfg template data = Inl InvalidDataType"
    if a: "(\<exists>s. template = JStr s) \<and> (data = JNull \<or> \<not> associative data)"
  proof -
    from a have "typeof template = ''string''" by (simp add: typeof_string_iff)
    moreover from a have "typeof data \<noteq> ''object'' \<or> data = JNull"
      using typeof_object_iff [of data] by blast
    ultimately show ?thesis by (simp add: replace_def)
  qed
  have "\<exists>e. replace cfg template data = Inl e"
    if "(\<forall>s. template \<noteq> JStr s) \<or> data = JNull \<or> \<not> associative data"
    using that t d by (cases "\<forall>s. template \<noteq> JStr s") auto
  with t d show ?thesis by blast
qed

theorem type_errors_witness:
  "replace defaults (JNum 42) (JObj []) = Inl InvalidTemplateType \<and>
   replace defaults (JStr ''x'') JNull = Inl InvalidDataType"
  using type_errors [of "JNum 42" defaults "JObj []"]
    type_errors [of "JStr ''x''" defaults JNull]
  by simp

text \<open>
  Claim C4. For every pair of delimiter strings, metacharacters included, the compiled
  pattern treats the delimiters as literal text: it parses to the literal code units of
  the starting delimiter, the capture group and the literal code units of the closing
  delimiter; its leftmost match is the one that the literal search of the
  specification finds; a template has a match exactly when it contains the starting
  delimiter, a non-empty inner text and the closing delimiter in this order; and the
  match found is the leftmost such occurrence with the shortest inner text.
\<close>

theorem delimiters_literal:
  "\<exists>r. pattern cfg = Some r \<and>
     exec r t = literal_exec (starting cfg) (closing cfg) t \<and>
     ((\<exists>pre m cap rest. exec r t = Some (pre, m, cap, rest)) \<longleftrightarrow>
      (\<exists>pre inner post. inner \<noteq> [] \<and> t = pre @ starting cfg @ inner @ closing cfg @ post)) \<and>
     (\<forall>pre m cap rest. exec r t = Some (pre, m, cap, rest) \<longrightarrow>
        (\<exists>inner. inner \<noteq> [] \<and> cap = Some inner \<and> m = starting cfg @ inner @ closing cfg \<and>
           t = pre @ starting cfg @ inner @ closing cfg @ rest \<and>
           (\<forall>pre' inner' post'. inner' \<noteq> [] \<and>
               t = pre' @ starting cfg @ inner' @ closing cfg @ post' \<longrightarrow>
               length pre \<le> length pre' \<and> (pre' = pre \<longrightarrow> length inner \<le> length inner'))))"
proof (rule exI [of _ "map Lit (starting cfg) @ CaptureAny # map Lit (closing cfg)"],
    unfold exec_literal, intro conjI allI impI)
  show "pattern cfg = Some (map Lit (starting cfg) @ CaptureAny # map Lit (closing cfg))"
    by (rule pattern_compiled)
  show "literal_exec (starting cfg) (closing cfg) t = literal_exec (starting cfg) (closing cfg) t"
    by (rule refl)
  show "(\<exists>pre m cap rest. literal_exec (starting cfg) (closing cfg) t = Some (pre, m, cap, rest)) \<longleftrightarrow>
      (\<exists>pre inner post. inner \<noteq> [] \<and> t = pre @ starting cfg @ inner @ closing cfg @ post)"
    by (rule literal_exec_iff)
next
  fix pre m cap rest
  assume "literal_exec (starting cfg) (closing cfg) t = Some (pre, m, cap, rest)"
  then show "\<exists>inner. inner \<noteq> [] \<and> cap = Some inner \<and> m = starting cfg @ inner @ closing cfg \<and>
           t = pre @ starting cfg @ inner @ closing cfg @ rest \<and>
           (\<forall>pre' inner' post'. inner' \<noteq> [] \<and>
               t = pre' @ starting cfg @ inner' @ closing cfg @ post' \<longrightarrow>
               length pre \<le> length pre' \<and> (pre' = pre \<longrightarrow> length inner \<le> length inner'))"
    by (rule literal_exec_minimal)
qed

theorem delimiters_literal_witness:
  "(\<exists>pre inner post. inner \<noteq> [] \<and>
      ''a[[k]]b]]'' = pre @ starting brackets @ inner @ closing brackets @ post) \<and>
   (\<exists>r. pattern brackets = Some r \<and>
      exec r ''a[[k]]b]]'' = Some (''a'', ''[[k]]'', Some ''k'', ''b]]''))"
proof -
  have ev: "literal_exec (starting brackets) (closing brackets) ''a[[k]]b]]'' =
      Some (''a'', ''[[k]]'', Some ''k'', ''b]]'')"
    by (simp add: brackets_def Templatar_def or_default_def)
  from delimiters_literal [of brackets "''a[[k]]b]]''"] obtain r where
    r: "pattern brackets = Some r"
      "exec r ''a[[k]]b]]'' = literal_exec (starting brackets) (closing brackets) ''a[[k]]b]]''"
      "(\<exists>pre m cap rest. exec r ''a[[k]]b]]'' = Some (pre, m, cap, rest)) \<longleftrightarrow>
        (\<exists>pre inner post. inner \<noteq> [] \<and>
          ''a[[k]]b]]'' = pre @ starting brackets @ inner @ closing brackets @ post)"
    by blast
  from r(2) ev have e: "exec r ''a[[k]]b]]'' = Some (''a'', ''[[k]]'', Some ''k'', ''b]]'')"
    by simp
  with r(3) have "\<exists>pre inner post. inner \<noteq> [] \<and>
      ''a[[k]]b]]'' = pre @ starting brackets @ inner @ closing brackets @ post"
    by blast
  with r(1) e show ?thesis by blast
qed

text \<open>
  Claim C5. For a placeholder \<open>key || D\<close> whose key does not resolve, the output is to
  hold the default \<open>D\<close> verbatim, untrimmed. This holds for every \<open>D\<close> that is free of
  the separator: the replacer of an instance without options returns exactly \<open>D\<close>,
  white space and line breaks included. It fails for a \<open>D\<close> that holds a separator,
  which is cut there (the defect of claim C1): \<open><{missing|| a||b }>\<close> gives \<open> a\<close>.
\<close>

theorem default_verbatim_without_separator:
  "(\<not> sublist ''||'' (k @ ''|'') \<and> \<not> sublist ''||'' D \<and>
    getProperty data (String_trim k) JUndefined = JUndefined \<longrightarrow>
      placeholder defaults data m (Some (k @ ''||'' @ D)) = Inr D) \<and>
   replace defaults (JStr ''<{missing|| a||b }>'') (JObj []) = Inr '' a''"
proof (intro conjI impI)
  assume a: "\<not> sublist ''||'' (k @ ''|'') \<and> \<not> sublist ''||'' D \<and>
    getProperty data (String_trim k) JUndefined = JUndefined"
  then have "String_split ''||'' (k @ ''||'' @ D) = [k, D]"
    by (simp add: split_bars_first split_bars_none)
  moreover from a have "getProperty data (String_trim k) (JStr D) = JStr D"
    by (simp add: getProperty_fallback)
  ultimately show "placeholder defaults data m (Some (k @ ''||'' @ D)) = Inr D"
    by (simp add: placeholder_parts transform_defaults normalize_value_def String_of_result_def)
next
  show "replace defaults (JStr ''<{missing|| a||b }>'') (JObj []) = Inr '' a''" by code_simp
qed

theorem default_verbatim_without_separator_witness:
  "\<not> sublist ''||'' ('' accessories '' @ ''|'') \<and>
   \<not> sublist ''||'' [CHR 0x0A, CHR '' '', CHR '' '', CHR ''-'', CHR '' '', CHR ''a'', CHR '' '', CHR 0x0A] \<and>
   getProperty (JObj []) (String_trim '' accessories '') JUndefined = JUndefined \<and>
   placeholder defaults (JObj []) [] (Some ('' accessories '' @ ''||'' @
       [CHR 0x0A, CHR '' '', CHR '' '', CHR ''-'', CHR '' '', CHR ''a'', CHR '' '', CHR 0x0A]))
     = Inr [CHR 0x0A, CHR '' '', CHR '' '', CHR ''-'', CHR '' '', CHR ''a'', CHR '' '', CHR 0x0A]"
proof -
  let ?D = "[CHR 0x0A, CHR '' '', CHR '' '', CHR ''-'', CHR '' '', CHR ''a'', CHR '' '', CHR 0x0A]"
  have h: "\<not> sublist ''||'' ('' accessories '' @ ''|'') \<and> \<not> sublist ''||'' ?D \<and>
    getProperty (JObj []) (String_trim '' accessories '') JUndefined = JUndefined"
    by code_simp
  with default_verbatim_without_separator [of "'' accessories ''" ?D "JObj []" "[]"]
  have "placeholder defaults (JObj []) [] (Some ('' accessories '' @ ''||'' @ ?D)) = Inr ?D"
    by blast
  with h show ?thesis by simp
qed

text \<open>
  Claim C6. The value handed to the transform hook is normalized: an object or an array
  is rendered by \<open>inspect\<close> with depth 4; any other value that is not a string is
  converted by \<open>String\<close>; a string is handed over as it is (\<open>null\<close> takes the branch
  of the objects in the code, and \<open>inspect\<close> gives it the same text). The theorem
  states, in this order: the normalized value case by case, each scalar with its
  canonical text; the text of a number is the decimal numeral of its value, with a minus
  sign when it is negative and no leading zero; the dump is bounded at depth 4, so that
  it is the dump of the value cut below five levels of nesting; down to that depth the
  dump reflects the nested structure, the text of an object holding each of its members
  as key, colon and the dump of the member's value, and the text of an array holding
  the dump of each element; and whenever the replacer of a placeholder returns, the hook
  has been called on the normalized resolved value, with the default and the trimmed
  key, and the output is the text of what the hook returned.
\<close>

theorem transform_input_normalized:
  "normalize_value v =
     (case v of
        JUndefined \<Rightarrow> JStr ''undefined''
      | JNull \<Rightarrow> JStr ''null''
      | JBool b \<Rightarrow> JStr (if b then ''true'' else ''false'')
      | JNum n \<Rightarrow> JStr (Number_toString n)
      | JNaN \<Rightarrow> JStr ''NaN''
      | JInfinity \<Rightarrow> JStr ''Infinity''
      | JNegInfinity \<Rightarrow> JStr ''-Infinity''
      | JStr s \<Rightarrow> JStr s
      | JArr xs \<Rightarrow> JStr (inspect (JArr xs) 4)
      | JObj kvs \<Rightarrow> JStr (inspect (JObj kvs) 4)) \<and>
   decimal_numeral (sint n) (Number_toString n) \<and>
   inspect v 4 = inspect (prune 5 v) 4 \<and>
   (lvl \<le> 4 \<and> (k, w) \<in> set kvs \<longrightarrow>
      sublist (k @ '': '' @ formatValue 4 (Suc lvl) w) (formatValue 4 lvl (JObj kvs))) \<and>
   (lvl \<le> 4 \<and> w \<in> set xs \<longrightarrow>
      sublist (formatValue 4 (Suc lvl) w) (formatValue 4 lvl (JArr xs))) \<and>
   (placeholder cfg data m (Some ks) = Inr out \<longrightarrow>
      (\<exists>dv res. transform cfg
          \<lparr>arg_value = normalize_value (getProperty data (span_key ks) dv),
           arg_defaultVal = dv, arg_key = span_key ks\<rparr> = Returns res \<and>
         out = js_String res))"
proof (intro conjI impI)
  show "normalize_value v =
     (case v of
        JUndefined \<Rightarrow> JStr ''undefined''
      | JNull \<Rightarrow> JStr ''null''
      | JBool b \<Rightarrow> JStr (if b then ''true'' else ''false'')
      | JNum n \<Rightarrow> JStr (Number_toString n)
      | JNaN \<Rightarrow> JStr ''NaN''
      | JInfinity \<Rightarrow> JStr ''Infinity''
      | JNegInfinity \<Rightarrow> JStr ''-Infinity''
      | JStr s \<Rightarrow> JStr s
      | JArr xs \<Rightarrow> JStr (inspect (JArr xs) 4)
      | JObj kvs \<Rightarrow> JStr (inspect (JObj kvs) 4))"
    by (cases v) (simp_all add: normalize_value_def inspect_def)
next
  show "decimal_numeral (sint n) (Number_toString n)"
    by (rule Number_toString_decimal)
next
  show "inspect v 4 = inspect (prune 5 v) 4"
    by (rule inspect_bounded)
next
  assume "lvl \<le> 4 \<and> (k, w) \<in> set kvs"
  then show "sublist (k @ '': '' @ formatValue 4 (Suc lvl) w) (formatValue 4 lvl (JObj kvs))"
    using object_member_printed [of lvl 4 k w kvs] by blast
next
  assume "lvl \<le> 4 \<and> w \<in> set xs"
  then show "sublist (formatValue 4 (Suc lvl) w) (formatValue 4 lvl (JArr xs))"
    using array_member_printed [of lvl 4 w xs] by blast
next
  assume p: "placeholder cfg data m (Some ks) = Inr out"
  have "\<exists>dv. placeholder cfg data m (Some ks) =
     String_of_result (transform cfg
       \<lparr>arg_value = normalize_value (getProperty data (span_key ks) dv), arg_defaultVal = dv,
        arg_key = span_key ks\<rparr>)"
  proof (cases "missing data ks")
    case False
    then show ?thesis by (rule placeholder_not_missing)
  next
    case True
    then have g: "getProperty data (span_key ks) JUndefined = JUndefined"
      by (simp add: missing_def)
    from True p have "placeholder cfg data m (Some ks) =
       String_of_result (transform cfg
         \<lparr>arg_value = normalize_value JUndefined, arg_defaultVal = JUndefined,
          arg_key = span_key ks\<rparr>)"
      by (simp add: placeholder_missing split: if_splits)
    with g have "placeholder cfg data m (Some ks) =
       String_of_result (transform cfg
         \<lparr>arg_value = normalize_value (getProperty data (span_key ks) JUndefined),
          arg_defaultVal = JUndefined, arg_key = span_key ks\<rparr>)"
      by simp
    then show ?thesis by blast
  qed
  then obtain dv where d: "String_of_result (transform cfg
       \<lparr>arg_value = normalize_value (getProperty data (span_key ks) dv), arg_defaultVal = dv,
        arg_key = span_key ks\<rparr>) = Inr out"
    using p by auto
  then obtain res where "transform cfg
       \<lparr>arg_value = normalize_value (getProperty data (span_key ks) dv), arg_defaultVal = dv,
        arg_key = span_key ks\<rparr> = Returns res" "out = js_String res"
    by (auto simp: String_of_result_def split: hook_result.splits)
  then show "\<exists>dv res. transform cfg
          \<lparr>arg_value = normalize_value (getProperty data (span_key ks) dv),
           arg_defaultVal = dv, arg_key = span_key ks\<rparr> = Returns res \<and>
         out = js_String res"
    by blast
qed

theorem transform_input_normalized_witness:
  "normalize_value (JNum 5) = JStr ''5'' \<and>
   decimal_numeral 5 ''5'' \<and>
   normalize_value (JObj [(''b'', JNum 5)]) = JStr ''{ b: 5 }'' \<and>
   (0::nat) \<le> 4 \<and> (''b'', JNum 5) \<in> set [(''b'', JNum 5)] \<and>
   sublist ''b: 5'' ''{ b: 5 }'' \<and>
   placeholder defaults (JObj [(''a'', JObj [(''b'', JNum 5)])]) ''<{a}>'' (Some ''a'') = Inr ''{ b: 5 }'' \<and>
   (\<exists>dv res. transform defaults
       \<lparr>arg_value = normalize_value (getProperty (JObj [(''a'', JObj [(''b'', JNum 5)])]) (span_key ''a'') dv),
        arg_defaultVal = dv, arg_key = span_key ''a''\<rparr> = Returns res \<and> ''{ b: 5 }'' = js_String res)"
proof -
  let ?d = "JObj [(''a'', JObj [(''b'', JNum 5)])]"
  note tin = transform_input_normalized
  have s5: "sint (5 :: 54 word) = 5" by simp
  have n5: "Number_toString 5 = ''5''" by (simp add: Number_toString_def digits.simps)
  have i: "inspect (JObj [(''b'', JNum 5)]) 4 = ''{ b: 5 }''" by (simp add: inspect_def n5)
  have f1: "formatValue 4 (Suc 0) (JNum 5) = ''5''" by (simp add: n5)
  have f0: "formatValue 4 0 (JObj [(''b'', JNum 5)]) = ''{ b: 5 }''" by (simp add: n5)
  have mem: "(0::nat) \<le> 4 \<and> (''b'', JNum 5) \<in> set [(''b'', JNum 5)]" by simp
  have p: "placeholder defaults ?d ''<{a}>'' (Some ''a'') = Inr ''{ b: 5 }''" by code_simp
  from tin [of "JNum 5" 5] n5 s5
  have a: "normalize_value (JNum 5) = JStr ''5''" and dn: "decimal_numeral 5 ''5''" by simp_all
  from tin [of "JObj [(''b'', JNum 5)]"] i
  have b: "normalize_value (JObj [(''b'', JNum 5)]) = JStr ''{ b: 5 }''" by simp
  from tin [of _ _ 0 "''b''" "JNum 5" "[(''b'', JNum 5)]"] mem f1 f0
  have sl: "sublist ''b: 5'' ''{ b: 5 }''" by simp
  from tin [of _ _ _ _ _ _ _ defaults ?d "''<{a}>''" "''a''" "''{ b: 5 }''"] p
  have c: "\<exists>dv res. transform defaults
       \<lparr>arg_value = normalize_value (getProperty ?d (span_key ''a'') dv),
        arg_defaultVal = dv, arg_key = span_key ''a''\<rparr> = Returns res \<and> ''{ b: 5 }'' = js_String res"
    by blast
  from a dn b mem sl p c show ?thesis by (intro conjI) simp_all
qed

text \<open>
  Claim C7. Key lookup resolves dotted paths into nested structure: for the data
  \<open>{a: {b: 5}}\<close> and the template \<open><{a.b}>\<close>, an instance built without options
  returns the string \<open>5\<close>.
\<close>

theorem dotted_path_example:
  "replace defaults (JStr ''<{a.b}>'') (JObj [(''a'', JObj [(''b'', JNum 5)])]) = Inr ''5''"
  by code_simp

theorem dotted_path_example_witness:
  "typeof (JStr ''<{a.b}>'') = ''string'' \<and>
   typeof (JObj [(''a'', JObj [(''b'', JNum 5)])]) = ''object'' \<and>
   getProperty (JObj [(''a'', JObj [(''b'', JNum 5)])]) ''a.b'' JUndefined = JNum 5 \<and>
   (\<exists>out. replace defaults (JStr ''<{a.b}>'') (JObj [(''a'', JObj [(''b'', JNum 5)])]) = Inr out
      \<and> out = ''5'')"
proof -
  have "getProperty (JObj [(''a'', JObj [(''b'', JNum 5)])]) ''a.b'' JUndefined = JNum 5"
    by code_simp
  with dotted_path_example show ?thesis by simp
qed

text \<open>
  Claim C8. For every template in which the compiled pattern recognizes no placeholder
  span, and every valid data object, \<open>replace\<close> returns the template unchanged. The
  second part states the same for a template that does not contain the starting
  delimiter, a non-empty inner text and the closing delimiter in this order.
\<close>

theorem no_span_unchanged:
  assumes "associative data"
  shows "(\<forall>r. pattern cfg = Some r \<and> exec r t = None \<longrightarrow> replace cfg (JStr t) data = Inr t) \<and>
         (\<not> (\<exists>pre inner post. inner \<noteq> [] \<and> t = pre @ starting cfg @ inner @ closing cfg @ post)
            \<longrightarrow> replace cfg (JStr t) data = Inr t)"
proof (intro conjI allI impI)
  fix r
  assume "pattern cfg = Some r \<and> exec r t = None"
  then show "replace cfg (JStr t) data = Inr t"
    using assms by (simp add: replace_associative scan_no_match)
next
  assume no: "\<not> (\<exists>pre inner post. inner \<noteq> [] \<and> t = pre @ starting cfg @ inner @ closing cfg @ post)"
  let ?r = "map Lit (starting cfg) @ CaptureAny # map Lit (closing cfg)"
  have "literal_exec (starting cfg) (closing cfg) t = None"
  proof (cases "literal_exec (starting cfg) (closing cfg) t")
    case None
    then show ?thesis .
  next
    case (Some q)
    then have "\<exists>pre m cap rest. literal_exec (starting cfg) (closing cfg) t = Some (pre, m, cap, rest)"
      by (cases q) simp
    with no literal_exec_iff [of "starting cfg" "closing cfg" t] show ?thesis by blast
  qed
  then have "exec ?r t = None" by (simp add: exec_literal)
  with assms show "replace cfg (JStr t) data = Inr t"
    by (simp add: replace_associative [OF _ pattern_compiled] scan_no_match)
qed

theorem no_span_unchanged_witness:
  "associative (JObj [(''name'', JStr ''Bob'')]) \<and>
   pattern defaults = Some [Lit CHR ''<'', Lit CHR ''{'', CaptureAny, Lit CHR ''}'', Lit CHR ''>''] \<and>
   exec [Lit CHR ''<'', Lit CHR ''{'', CaptureAny, Lit CHR ''}'', Lit CHR ''>'']
     ''stray }> and  <{ unclosed'' = None \<and>
   replace defaults (JStr ''stray }> and  <{ unclosed'') (JObj [(''name'', JStr ''Bob'')])
     = Inr ''stray }> and  <{ unclosed''"
proof -
  have a: "associative (JObj [(''name'', JStr ''Bob'')])" by (simp add: associative_def)
  have e: "exec [Lit CHR ''<'', Lit CHR ''{'', CaptureAny, Lit CHR ''}'', Lit CHR ''>'']
     ''stray }> and  <{ unclosed'' = None" by code_simp
  from no_span_unchanged [OF a, of defaults "''stray }> and  <{ unclosed''"] pattern_defaults e
  have "replace defaults (JStr ''stray }> and  <{ unclosed'') (JObj [(''name'', JStr ''Bob'')])
     = Inr ''stray }> and  <{ unclosed''" by blast
  with a pattern_defaults e show ?thesis by simp
qed

text \<open>
  Claim C9. Substitution is one flat pass. The result for a template whose leftmost
  match is \<open>m\<close> is the text before the match, the replacement of \<open>m\<close>, and the result
  for the rest of the template: the replacement text is never scanned. A value is
  inserted as it is, whatever it contains; a value that holds a placeholder is inserted
  literally, and \<open>replace\<close> applied to that output gives another text, so \<open>replace\<close>
  is not idempotent.
\<close>

theorem flat_pass:
  "(associative data \<and> pattern cfg = Some r \<and> exec r t = Some (pre, m, cap, rest) \<and>
      placeholder cfg data m cap = Inr out \<longrightarrow>
      replace cfg (JStr t) data =
        (case replace cfg (JStr rest) data of Inl e \<Rightarrow> Inl e | Inr tail \<Rightarrow> Inr (pre @ out @ tail))) \<and>
   replace defaults (JStr ''<{x}>'') (JObj [(''x'', JStr v)]) = Inr v \<and>
   replace defaults (JStr ''<{x}>'') (JObj [(''x'', JStr ''<{y}>''), (''y'', JStr ''Z'')]) = Inr ''<{y}>'' \<and>
   replace defaults (JStr ''<{y}>'') (JObj [(''x'', JStr ''<{y}>''), (''y'', JStr ''Z'')]) = Inr ''Z''"
proof (intro conjI impI)
  assume a: "associative data \<and> pattern cfg = Some r \<and> exec r t = Some (pre, m, cap, rest) \<and>
      placeholder cfg data m cap = Inr out"
  then have "m \<noteq> []"
    using pattern_exec_sound [of cfg r t pre m cap rest] by auto
  with a have "scan r t = Text pre # Span m cap # scan r rest"
    by (simp add: scan_match)
  with a show "replace cfg (JStr t) data =
        (case replace cfg (JStr rest) data of Inl e \<Rightarrow> Inl e | Inr tail \<Rightarrow> Inr (pre @ out @ tail))"
    by (simp add: replace_associative split: sum.splits)
next
  have e: "exec [Lit CHR ''<'', Lit CHR ''{'', CaptureAny, Lit CHR ''}'', Lit CHR ''>''] ''<{x}>''
      = Some ([], ''<{x}>'', Some ''x'', [])"
    by code_simp
  have s: "String_split ''||'' ''x'' = [''x'']" by code_simp
  have t: "String_trim ''x'' = ''x''" by code_simp
  have p: "String_split ''.'' ''x'' = [''x'']" by code_simp
  have ph: "placeholder defaults (JObj [(''x'', JStr v)]) ''<{x}>'' (Some ''x'') = Inr v"
    by (simp add: placeholder_def s t p getProperty_def normalize_value_def
        transform_defaults ignoreMissing_defaults String_of_result_def)
  have n: "exec [Lit CHR ''<'', Lit CHR ''{'', CaptureAny, Lit CHR ''}'', Lit CHR ''>''] [] = None"
    by simp
  have sc: "scan [Lit CHR ''<'', Lit CHR ''{'', CaptureAny, Lit CHR ''}'', Lit CHR ''>''] ''<{x}>''
      = [Text [], Span ''<{x}>'' (Some ''x''), Text []]"
    by (simp add: scan_match [OF e] scan_no_match [OF n])
  show "replace defaults (JStr ''<{x}>'') (JObj [(''x'', JStr v)]) = Inr v"
    by (simp add: replace_associative [OF _ pattern_defaults] associative_def sc ph)
next
  show "replace defaults (JStr ''<{x}>'') (JObj [(''x'', JStr ''<{y}>''), (''y'', JStr ''Z'')])
      = Inr ''<{y}>''"
    by code_simp
next
  show "replace defaults (JStr ''<{y}>'') (JObj [(''x'', JStr ''<{y}>''), (''y'', JStr ''Z'')])
      = Inr ''Z''"
    by code_simp
qed

theorem flat_pass_witness:
  "associative (JObj [(''x'', JStr ''<{y}>''), (''y'', JStr ''Z'')]) \<and>
   pattern defaults = Some [Lit CHR ''<'', Lit CHR ''{'', CaptureAny, Lit CHR ''}'', Lit CHR ''>''] \<and>
   exec [Lit CHR ''<'', Lit CHR ''{'', CaptureAny, Lit CHR ''}'', Lit CHR ''>''] ''a <{x}> b''
     = Some (''a '', ''<{x}>'', Some ''x'', '' b'') \<and>
   placeholder defaults (JObj [(''x'', JStr ''<{y}>''), (''y'', JStr ''Z'')]) ''<{x}>'' (Some ''x'')
     = Inr ''<{y}>'' \<and>
   replace defaults (JStr '' b'') (JObj [(''x'', JStr ''<{y}>''), (''y'', JStr ''Z'')]) = Inr '' b'' \<and>
   replace defaults (JStr ''a <{x}> b'') (JObj [(''x'', JStr ''<{y}>''), (''y'', JStr ''Z'')])
     = Inr ''a <{y}> b''"
proof -
  let ?d = "JObj [(''x'', JStr ''<{y}>''), (''y'', JStr ''Z'')]"
  let ?r = "[Lit CHR ''<'', Lit CHR ''{'', CaptureAny, Lit CHR ''}'', Lit CHR ''>'']"
  have a: "associative ?d" by (simp add: associative_def)
  have e: "exec ?r ''a <{x}> b'' = Some (''a '', ''<{x}>'', Some ''x'', '' b'')" by code_simp
  have ph: "placeholder defaults ?d ''<{x}>'' (Some ''x'') = Inr ''<{y}>''" by code_simp
  have rest: "replace defaults (JStr '' b'') ?d = Inr '' b''" by code_simp
  from flat_pass [of ?d defaults ?r "''a <{x}> b''" "''a ''" "''<{x}>''" "Some ''x''" "'' b''" "''<{y}>''"]
    a pattern_defaults e ph
  have "replace defaults (JStr ''a <{x}> b'') ?d =
      (case replace defaults (JStr '' b'') ?d of Inl e \<Rightarrow> Inl e | Inr tail \<Rightarrow> Inr (''a '' @ ''<{y}>'' @ tail))"
    by blast
  with rest have "replace defaults (JStr ''a <{x}> b'') ?d = Inr ''a <{y}> b''" by simp
  with a pattern_defaults e ph rest show ?thesis by simp
qed




end
